theory Spec2Isabelle
  imports Complex_Main "HOL-Library.Stream"
begin

section \<open>Monte Carlo forecast pipeline (mc\_pipeline.py)\<close>

text \<open>
  Python floats are modelled as the real numbers they approximate: \<open>math.sqrt\<close>,
  \<open>math.log\<close>, \<open>math.exp\<close> and \<open>**\<close> are \<open>sqrt\<close>, \<open>ln\<close>, \<open>exp\<close> and
  \<open>powr\<close>, with the domain errors of the Python functions written out as results.
  Every exception the code can raise is a value of \<open>py_error\<close>; a function that may
  raise returns \<open>py_error + 'a\<close>, with \<open>Inl\<close> for the exception.
\<close>

datatype py_error =
    KeyError | ValueError | TypeError | ZeroDivisionError | IndexError
  | RuntimeError | ComplexResult

subsection \<open>The shared pseudo-random generator\<close>

text \<open>
  The module-level generator of \<open>random\<close> is an explicit stream of raw draws that is
  threaded through every function that samples. \<open>random.gauss(mu, sigma)\<close> returns
  \<open>mu + z * sigma\<close> for the next standard normal variate \<open>z\<close>, and
  \<open>random.uniform(a, b)\<close> returns \<open>a + (b - a) * u\<close> for the next \<open>u\<close>; the head of
  the stream is that next variate. Nothing is assumed about the values of the stream.
\<close>

type_synonym rng = "real stream"

definition gauss :: "real \<Rightarrow> real \<Rightarrow> rng \<Rightarrow> real \<times> rng" where
  "gauss mu sigma g = (mu + shd g * sigma, stl g)"

definition uniform :: "real \<Rightarrow> real \<Rightarrow> rng \<Rightarrow> real \<times> rng" where
  "uniform a b g = (a + (b - a) * shd g, stl g)"

definition lognormal_sigma_from_cv :: "real \<Rightarrow> real" where
  "lognormal_sigma_from_cv cv = sqrt (ln (1 + cv * cv))"

subsection \<open>Correlation engine\<close>

type_synonym matrix = "real list list"

text \<open>The innermost loop of \<open>cholesky\<close>: \<open>s = 0.0; for k in range(j): s += L[i][k] * L[j][k]\<close>.\<close>

definition cholesky_sum :: "matrix \<Rightarrow> nat \<Rightarrow> nat \<Rightarrow> real" where
  "cholesky_sum L i j = fold (\<lambda>k s. s + L ! i ! k * L ! j ! k) [0..<j] 0"

text \<open>
  The body of the loop over \<open>j\<close>. \<open>L\<close> is the \<open>n \<times> n\<close> list the function allocated
  itself, so its reads are in range; \<open>matrix\<close> is the caller's, and a row that is too
  short raises \<open>IndexError\<close>.
\<close>

definition cholesky_cell :: "matrix \<Rightarrow> matrix \<Rightarrow> nat \<Rightarrow> nat \<Rightarrow> py_error + matrix" where
  "cholesky_cell m L i j =
     (let s = cholesky_sum L i j in
      if i = j then
        (if length (m ! i) \<le> i then Inl IndexError
         else
           let val = m ! i ! i - s in
           if val \<le> 0 then Inl ValueError
           else Inr (L[i := (L ! i)[j := sqrt val]]))
      else
        (if length (m ! i) \<le> j then Inl IndexError
         else if L ! j ! j = 0 then Inl ZeroDivisionError
         else Inr (L[i := (L ! i)[j := (m ! i ! j - s) / (L ! j ! j)]])))"

fun cholesky_row :: "matrix \<Rightarrow> matrix \<Rightarrow> nat \<Rightarrow> nat list \<Rightarrow> py_error + matrix" where
  "cholesky_row m L i [] = Inr L"
| "cholesky_row m L i (j # js) =
     (case cholesky_cell m L i j of
        Inl e \<Rightarrow> Inl e
      | Inr L' \<Rightarrow> cholesky_row m L' i js)"

fun cholesky_rows :: "matrix \<Rightarrow> matrix \<Rightarrow> nat list \<Rightarrow> py_error + matrix" where
  "cholesky_rows m L [] = Inr L"
| "cholesky_rows m L (i # is) =
     (case cholesky_row m L i [0..<i + 1] of
        Inl e \<Rightarrow> Inl e
      | Inr L' \<Rightarrow> cholesky_rows m L' is)"

definition cholesky :: "matrix \<Rightarrow> py_error + matrix" where
  "cholesky m =
     (let n = length m;
          L = replicate n (replicate n 0)
      in cholesky_rows m L [0..<n])"

record correlations_cfg =
  corr_tests :: "string list"
  corr_pairs :: "(string \<times> string \<times> real) list"

text \<open>\<open>idx = {t: i for i, t in enumerate(tests)}\<close>: a later duplicate overwrites.\<close>

definition index_map :: "string list \<Rightarrow> (string \<rightharpoonup> nat)" where
  "index_map tests = fold (\<lambda>(i, t) m. m(t \<mapsto> i)) (List.enumerate 0 tests) Map.empty"

definition unit_diagonal :: "nat \<Rightarrow> matrix" where
  "unit_diagonal n =
     fold (\<lambda>i c. c[i := (c ! i)[i := 1]]) [0..<n] (replicate n (replicate n 0))"

definition set_entry :: "matrix \<Rightarrow> nat \<Rightarrow> nat \<Rightarrow> real \<Rightarrow> matrix" where
  "set_entry c i j v = c[i := (c ! i)[j := v]]"

fun set_pairs :: "(string \<rightharpoonup> nat) \<Rightarrow> matrix \<Rightarrow> (string \<times> string \<times> real) list
    \<Rightarrow> py_error + matrix" where
  "set_pairs idx corr [] = Inr corr"
| "set_pairs idx corr ((a, b, val) # ps) =
     (case idx a of
        None \<Rightarrow> Inl KeyError
      | Some i \<Rightarrow>
          (case idx b of
             None \<Rightarrow> Inl KeyError
           | Some j \<Rightarrow> set_pairs idx (set_entry (set_entry corr i j val) j i val) ps))"

definition correlation_matrix :: "correlations_cfg \<Rightarrow> py_error + matrix" where
  "correlation_matrix cc =
     set_pairs (index_map (corr_tests cc)) (unit_diagonal (length (corr_tests cc)))
       (corr_pairs cc)"

text \<open>\<open>[[corr[i][j] + (eps if i == j else 0.0) for j in range(n)] for i in range(n)]\<close>\<close>

definition inflate :: "nat \<Rightarrow> matrix \<Rightarrow> real \<Rightarrow> matrix" where
  "inflate n corr eps =
     map (\<lambda>i. map (\<lambda>j. corr ! i ! j + (if i = j then eps else 0)) [0..<n]) [0..<n]"

definition corr_eps :: "nat \<Rightarrow> matrix \<Rightarrow> real \<Rightarrow> matrix" where
  "corr_eps n corr eps = (if eps > 0 then inflate n corr eps else corr)"

definition epsilons :: "real list" where
  "epsilons = [0, 1 / 10 ^ 8, 1 / 10 ^ 6, 1 / 10 ^ 5, 1 / 10 ^ 4, 1 / 10 ^ 3, 1 / 10 ^ 2]"

text \<open>
  The retry loop: \<open>except Exception\<close> catches whatever \<open>cholesky\<close> raised and leaves
  \<open>L = None\<close>; the first success breaks out of the loop.
\<close>

fun try_epsilons :: "nat \<Rightarrow> matrix \<Rightarrow> real list \<Rightarrow> matrix option" where
  "try_epsilons n corr [] = None"
| "try_epsilons n corr (eps # rest) =
     (case cholesky (corr_eps n corr eps) of
        Inr L \<Rightarrow> Some L
      | Inl e \<Rightarrow> try_epsilons n corr rest)"

definition build_correlation :: "correlations_cfg \<Rightarrow> py_error + (string list \<times> matrix)" where
  "build_correlation cc =
     (case correlation_matrix cc of
        Inl e \<Rightarrow> Inl e
      | Inr corr \<Rightarrow>
          (case try_epsilons (length (corr_tests cc)) corr epsilons of
             None \<Rightarrow> Inl RuntimeError
           | Some L \<Rightarrow> Inr (corr_tests cc, L)))"

subsection \<open>Shock sampler\<close>

text \<open>\<open>z = [random.gauss(0.0, 1.0) for _ in range(n)]\<close>\<close>

fun gauss_list :: "nat \<Rightarrow> rng \<Rightarrow> real list \<times> rng" where
  "gauss_list 0 g = ([], g)"
| "gauss_list (Suc n) g =
     (let (z, g1) = gauss 0 1 g;
          (zs, g2) = gauss_list n g1
      in (z # zs, g2))"

text \<open>
  One row of the mixing loop: \<open>s = 0.0; for k in range(i + 1): s += Li[k] * z[k]\<close>.
  The factor is the caller's; a row shorter than \<open>i + 1\<close> raises \<open>IndexError\<close>.
\<close>

definition mix_row :: "real list \<Rightarrow> real list \<Rightarrow> nat \<Rightarrow> py_error + real" where
  "mix_row Li z i =
     (if length Li \<le> i then Inl IndexError
      else Inr (fold (\<lambda>k s. s + Li ! k * z ! k) [0..<i + 1] 0))"

fun mix_rows :: "matrix \<Rightarrow> real list \<Rightarrow> nat list \<Rightarrow> py_error + real list" where
  "mix_rows L z [] = Inr []"
| "mix_rows L z (i # is) =
     (case mix_row (L ! i) z i of
        Inl e \<Rightarrow> Inl e
      | Inr s \<Rightarrow>
          (case mix_rows L z is of
             Inl e \<Rightarrow> Inl e
           | Inr xs \<Rightarrow> Inr (s # xs)))"

definition sample_correlated_z :: "matrix \<Rightarrow> rng \<Rightarrow> py_error + (real list \<times> rng)" where
  "sample_correlated_z L g =
     (let n = length L;
          (z, g1) = gauss_list n g
      in case mix_rows L z [0..<n] of
           Inl e \<Rightarrow> Inl e
         | Inr x \<Rightarrow> Inr (x, g1))"

text \<open>\<open>z_map = {corr_tests[i]: z_corr[i] for i in range(len(corr_tests))}\<close>\<close>

definition z_map_of :: "string list \<Rightarrow> real list \<Rightarrow> py_error + (string \<rightharpoonup> real)" where
  "z_map_of ctests z_corr =
     (if length z_corr < length ctests then Inl IndexError
      else Inr (fold (\<lambda>i m. m(ctests ! i \<mapsto> z_corr ! i)) [0..<length ctests] Map.empty))"

text \<open>
  \<open>sample_rate(test, mu, cv, is_lognormal, z=None)\<close>. \<open>math.log(mu)\<close> raises
  \<open>ValueError\<close> unless \<open>mu > 0\<close>; it is evaluated before \<open>z\<close> is drawn.
\<close>

definition sample_rate ::
    "string \<Rightarrow> real \<Rightarrow> real \<Rightarrow> bool \<Rightarrow> real option \<Rightarrow> rng \<Rightarrow> py_error + (real \<times> rng)" where
  "sample_rate test mu cv is_lognormal z g =
     (if is_lognormal then
        (let sigma = lognormal_sigma_from_cv cv in
         if mu \<le> 0 then Inl ValueError
         else
           let mu_log = ln mu;
               (z1, g1) = (case z of None \<Rightarrow> gauss 0 1 g | Some z0 \<Rightarrow> (z0, g));
               r = exp (mu_log + sigma * z1)
           in Inr (r, g1))
      else
        (let sigma = \<bar>mu\<bar> * cv;
             (z1, g1) = (case z of None \<Rightarrow> gauss 0 1 g | Some z0 \<Rightarrow> (z0, g));
             r = mu + sigma * z1
         in Inr (if r < 0 then 0 else r, g1)))"

text \<open>
  The post-acceleration rate of one draw, from lines 370 to 374 of \<open>simulate_client\<close>:
  \<open>None\<close> when no post rate is configured, otherwise
  \<open>post_mu * (r / mu) if mu > 0 else post_mu\<close>.
\<close>

definition derive_rate_post :: "real option \<Rightarrow> real \<Rightarrow> real \<Rightarrow> real option" where
  "derive_rate_post post_mu r mu =
     (case post_mu of
        None \<Rightarrow> None
      | Some p \<Rightarrow> Some (if mu > 0 then p * (r / mu) else p))"

record homa_cfg =
  homa_q10 :: real
  homa_q90 :: real
  homa_median :: real
  homa_min :: "real option"
  homa_max :: "real option"

definition sample_homa_reduction :: "homa_cfg \<Rightarrow> rng \<Rightarrow> py_error + (real \<times> rng)" where
  "sample_homa_reduction h g =
     (let z10 = - (12815515655446004 / 10 ^ 16);
          z90 = 12815515655446004 / 10 ^ 16
      in if homa_q90 h \<le> 0 \<or> homa_q10 h \<le> 0 \<or> homa_median h \<le> 0 then Inl ValueError
         else
           let sigma = (ln (homa_q90 h) - ln (homa_q10 h)) / (z90 - z10);
               mu = ln (homa_median h);
               (z, g1) = gauss 0 1 g;
               r = exp (mu + sigma * z);
               lo = (case homa_min h of None \<Rightarrow> 0 | Some v \<Rightarrow> v);
               hi = (case homa_max h of None \<Rightarrow> 1 | Some v \<Rightarrow> v)
           in Inr (max lo (min hi r), g1))"

record improvement_cfg =
  vo2_age_cutoff :: real
  vo2_under :: "real \<times> real"
  vo2_over :: "real \<times> real"
  homa_ir_reduction :: homa_cfg
  ranges :: "string \<rightharpoonup> real \<times> real"

definition sample_improvement_fraction ::
    "string \<Rightarrow> real option \<Rightarrow> improvement_cfg \<Rightarrow> rng \<Rightarrow> py_error + (real \<times> rng)" where
  "sample_improvement_fraction test age ic g =
     (if test = ''VO2 max'' then
        (let cutoff = vo2_age_cutoff ic;
             (low, high) =
               (if (case age of None \<Rightarrow> True | Some a \<Rightarrow> a < cutoff)
                then vo2_under ic else vo2_over ic)
         in Inr (uniform low high g))
      else if test = ''HOMA-IR'' then sample_homa_reduction (homa_ir_reduction ic) g
      else
        (case ranges ic test of
           None \<Rightarrow> Inr (0, g)
         | Some (lo, hi) \<Rightarrow> Inr (uniform lo hi g)))"

subsection \<open>Trajectory projector\<close>

text \<open>
  Python's \<open>x ** y\<close> on floats. A negative base with a fractional exponent gives a
  complex number in Python 3; the pipeline is real-valued from there on, so the model
  stops with \<open>ComplexResult\<close> at that point.
\<close>

definition py_pow :: "real \<Rightarrow> real \<Rightarrow> py_error + real" where
  "py_pow x y =
     (if 0 < x then Inr (x powr y)
      else if x = 0 then
        (if 0 < y then Inr 0 else if y = 0 then Inr 1 else Inl ZeroDivisionError)
      else if real_of_int \<lfloor>y\<rfloor> = y then Inr (x powi \<lfloor>y\<rfloor>)
      else Inl ComplexResult)"

text \<open>The local function \<open>apply_segment\<close> of \<open>apply_decline\<close>, with its two closure variables first.\<close>

definition apply_segment :: "bool \<Rightarrow> bool \<Rightarrow> real \<Rightarrow> real \<Rightarrow> real \<Rightarrow> py_error + real" where
  "apply_segment use_absolute higher val rate years_segment =
     (if years_segment \<le> 0 then Inr val
      else if use_absolute then
        (let decline_amount = rate * (years_segment / 10) in
         if higher then Inr (val - decline_amount) else Inr (val + decline_amount))
      else
        (let factor =
               (if higher then (if val \<ge> 0 then 1 - rate else 1 + rate)
                else (if val \<ge> 0 then 1 + rate else 1 - rate))
         in case py_pow factor (years_segment / 10) of
              Inl e \<Rightarrow> Inl e
            | Inr p \<Rightarrow> Inr (val * p)))"

text \<open>The split of the horizon at the acceleration age: \<open>(years1, years2)\<close>.\<close>

definition split_years :: "real \<Rightarrow> real \<Rightarrow> real option \<Rightarrow> real \<times> real" where
  "split_years age_start years accel_age =
     (case accel_age of
        None \<Rightarrow> (years, 0)
      | Some a \<Rightarrow>
          if age_start < a then
            (let years1 = min years (a - age_start) in (years1, years - years1))
          else (0, years))"

definition apply_decline ::
    "real \<Rightarrow> real \<Rightarrow> real \<Rightarrow> real \<Rightarrow> real option \<Rightarrow> real option \<Rightarrow> bool \<Rightarrow> bool
      \<Rightarrow> py_error + real" where
  "apply_decline value age_start years rate_base rate_post accel_age higher use_absolute =
     (if years \<le> 0 then Inr value
      else
        let (years1, years2) = split_years age_start years accel_age in
        case (if years1 > 0 then apply_segment use_absolute higher value rate_base years1
              else Inr value) of
          Inl e \<Rightarrow> Inl e
        | Inr val \<Rightarrow>
            if years2 > 0 then
              (let rate = (case rate_post of Some p \<Rightarrow> p | None \<Rightarrow> rate_base)
               in apply_segment use_absolute higher val rate years2)
            else Inr val)"

text \<open>
  \<open>measurement_cv[test]\<close> raises \<open>KeyError\<close> for a test without an entry.
\<close>

definition apply_measurement_noise ::
    "string \<Rightarrow> real \<Rightarrow> (string \<rightharpoonup> real) \<Rightarrow> string set \<Rightarrow> string set \<Rightarrow> rng
      \<Rightarrow> py_error + (real \<times> rng)" where
  "apply_measurement_noise test true_val mcv mlog allow_neg g =
     (case mcv test of
        None \<Rightarrow> Inl KeyError
      | Some cv \<Rightarrow>
          if test \<in> mlog then
            (if true_val \<le> 0 then Inr (0, g)
             else
               let sigma = lognormal_sigma_from_cv cv;
                   (z, g1) = gauss 0 1 g;
                   factor = exp (sigma * z)
               in Inr (true_val * factor, g1))
          else
            (let sigma = \<bar>true_val\<bar> * cv;
                 (noise, g1) = gauss 0 sigma g;
                 obs = true_val + noise
             in Inr (if test \<notin> allow_neg \<and> obs < 0 then 0 else obs, g1)))"

text \<open>
  The observed value is whatever \<open>data.get(test, 0.0)\<close> returned; the reader stores
  \<open>None\<close> for a cell that is not a number, and \<open>None <= 0\<close> and \<open>abs(None)\<close> raise
  \<open>TypeError\<close>.
\<close>

definition infer_true_from_observed ::
    "string \<Rightarrow> real option \<Rightarrow> (string \<rightharpoonup> real) \<Rightarrow> string set \<Rightarrow> string set \<Rightarrow> rng
      \<Rightarrow> py_error + (real \<times> rng)" where
  "infer_true_from_observed test obs_val mcv mlog allow_neg g =
     (case mcv test of
        None \<Rightarrow> Inl KeyError
      | Some cv \<Rightarrow>
          (case obs_val of
             None \<Rightarrow> Inl TypeError
           | Some ov \<Rightarrow>
               if test \<in> mlog then
                 (if ov \<le> 0 then Inr (0, g)
                  else
                    let sigma = lognormal_sigma_from_cv cv;
                        (z, g1) = gauss 0 1 g;
                        factor = exp (sigma * z)
                    in Inr (ov / factor, g1))
               else
                 (let sigma = \<bar>ov\<bar> * cv;
                      (noise, g1) = gauss 0 sigma g;
                      true_val = ov - noise
                  in Inr (if test \<notin> allow_neg \<and> true_val < 0 then 0 else true_val, g1))))"

subsection \<open>Configuration and clients\<close>

text \<open>
  The configuration document, with the keys that \<open>simulate_client\<close> reads by
  subscript as fields and the keys it reads with \<open>.get\<close> as optional values. The
  fields of \<open>practice_effect\<close> carry the defaults of their \<open>.get\<close> calls.
\<close>

record practice_cfg =
  pe_enabled :: bool
  pe_year :: "real option"
  pe_tests :: "string list"
  pe_percent :: real

record config =
  tests_order :: "string list"
  higher_is_better :: "string list"
  lower_is_better :: "string list"
  cognitive_tests :: "string list"
  absolute_decline_tests :: "string list option"
  allow_negative_tests :: "string list option"
  base_rate_per_decade :: "string \<rightharpoonup> real"
  post_rate_per_decade :: "string \<rightharpoonup> real"
  accelerate_from_age :: "string \<rightharpoonup> real"
  rate_uncertainty_cv :: "string \<rightharpoonup> real"
  rate_lognormal :: "string list"
  measurement_cv :: "string \<rightharpoonup> real"
  measurement_lognormal :: "string list"
  improvement :: improvement_cfg
  practice_effect :: practice_cfg
  n_sim :: int

text \<open>
  A client as \<open>read_input_clients\<close> builds it: \<open>data\<close> has no entry for a test whose
  label is not on the sheet, and the entry \<open>None\<close> for a label whose cell is not a number.
\<close>

record client =
  sheet_name :: string
  name :: string
  age :: "real option"
  data :: "string \<rightharpoonup> real option"

definition absolute_decline :: "config \<Rightarrow> string set" where
  "absolute_decline cfg =
     (case absolute_decline_tests cfg of None \<Rightarrow> {} | Some ts \<Rightarrow> set ts)"

definition allow_negative :: "config \<Rightarrow> string set" where
  "allow_negative cfg =
     (case allow_negative_tests cfg of
        None \<Rightarrow> set (cognitive_tests cfg @ [''Sit and Reach''])
      | Some ts \<Rightarrow> set ts)"

text \<open>\<open>age or 0\<close>\<close>

definition age_or_zero :: "real option \<Rightarrow> real" where
  "age_or_zero a = (case a of None \<Rightarrow> 0 | Some v \<Rightarrow> v)"

subsection \<open>The simulation of one client\<close>

text \<open>The first loop over the tests of one draw: the sampled base and post rates.\<close>

fun sample_rates ::
    "config \<Rightarrow> (string \<rightharpoonup> real) \<Rightarrow> string list \<Rightarrow> (string \<rightharpoonup> real) \<Rightarrow> (string \<rightharpoonup> real option)
      \<Rightarrow> rng \<Rightarrow> py_error + ((string \<rightharpoonup> real) \<times> (string \<rightharpoonup> real option) \<times> rng)" where
  "sample_rates cfg z_map [] rate rate_post g = Inr (rate, rate_post, g)"
| "sample_rates cfg z_map (test # tests) rate rate_post g =
     (case base_rate_per_decade cfg test of
        None \<Rightarrow> Inl KeyError
      | Some mu \<Rightarrow>
          (case rate_uncertainty_cv cfg test of
             None \<Rightarrow> Inl KeyError
           | Some cv \<Rightarrow>
               (case sample_rate test mu cv (test \<in> set (rate_lognormal cfg)) (z_map test) g of
                  Inl e \<Rightarrow> Inl e
                | Inr (r, g1) \<Rightarrow>
                    sample_rates cfg z_map tests (rate(test \<mapsto> r))
                      (rate_post(test \<mapsto> derive_rate_post (post_rate_per_decade cfg test) r mu))
                      g1)))"

text \<open>\<open>obs = data.get(test, 0.0)\<close>\<close>

definition observed :: "(string \<rightharpoonup> real option) \<Rightarrow> string \<Rightarrow> real option" where
  "observed d test = (case d test of None \<Rightarrow> Some 0 | Some v \<Rightarrow> v)"

text \<open>The second loop: the de-noised baselines \<open>true0\<close>.\<close>

fun infer_all ::
    "config \<Rightarrow> (string \<rightharpoonup> real option) \<Rightarrow> string list \<Rightarrow> (string \<rightharpoonup> real) \<Rightarrow> rng
      \<Rightarrow> py_error + ((string \<rightharpoonup> real) \<times> rng)" where
  "infer_all cfg d [] true0 g = Inr (true0, g)"
| "infer_all cfg d (test # tests) true0 g =
     (case infer_true_from_observed test (observed d test) (measurement_cv cfg)
             (set (measurement_lognormal cfg)) (allow_negative cfg) g of
        Inl e \<Rightarrow> Inl e
      | Inr (v, g1) \<Rightarrow> infer_all cfg d tests (true0(test \<mapsto> v)) g1)"

text \<open>The instantaneous improvement of lines 386 to 397.\<close>

definition improve :: "config \<Rightarrow> string \<Rightarrow> real \<Rightarrow> real \<Rightarrow> real" where
  "improve cfg test val imp =
     (if test \<in> absolute_decline cfg then
        (if test \<in> set (lower_is_better cfg) then val - imp else val + imp)
      else
        (if test \<in> set (lower_is_better cfg) then
           (if val \<ge> 0 then val * (1 - imp) else val * (1 + imp))
         else
           (if val \<ge> 0 then val * (1 + imp) else val * (1 - imp))))"

text \<open>
  The scenario branch of lines 384 to 418: the value of one test after the horizon,
  before the practice effect and the measurement noise.
\<close>

definition scenario_value ::
    "config \<Rightarrow> real option \<Rightarrow> string \<Rightarrow> real \<Rightarrow> string \<Rightarrow> real \<Rightarrow> real \<Rightarrow> real option \<Rightarrow> rng
      \<Rightarrow> py_error + (real \<times> rng)" where
  "scenario_value cfg ag scenario years test val r rp g =
     (if scenario = ''improvement'' then
        (case sample_improvement_fraction test ag (improvement cfg) g of
           Inl e \<Rightarrow> Inl e
         | Inr (imp, g1) \<Rightarrow>
             (case apply_decline (improve cfg test val imp) (age_or_zero ag + 1) (years - 1)
                     r rp (accelerate_from_age cfg test)
                     (test \<in> set (higher_is_better cfg)) (test \<in> absolute_decline cfg) of
                Inl e \<Rightarrow> Inl e
              | Inr v \<Rightarrow> Inr (v, g1)))
      else
        (case apply_decline val (age_or_zero ag) years
                r rp (accelerate_from_age cfg test)
                (test \<in> set (higher_is_better cfg)) (test \<in> absolute_decline cfg) of
           Inl e \<Rightarrow> Inl e
         | Inr v \<Rightarrow> Inr (v, g)))"

text \<open>The practice effect of lines 420 to 430.\<close>

definition practice :: "config \<Rightarrow> real \<Rightarrow> string \<Rightarrow> real \<Rightarrow> real" where
  "practice cfg years test val =
     (let pc = practice_effect cfg in
      if pe_enabled pc \<and> Some years = pe_year pc \<and> test \<in> set (pe_tests pc) then
        (let practice_amount = pe_percent pc in
         if test \<in> absolute_decline cfg then val + practice_amount
         else if val \<ge> 0 then val * (1 + practice_amount)
         else val * (1 - practice_amount))
      else val)"

text \<open>The body of the loop over the tests at one horizon: one simulated observation.\<close>

definition project ::
    "config \<Rightarrow> real option \<Rightarrow> string \<Rightarrow> real \<Rightarrow> (string \<rightharpoonup> real) \<Rightarrow> (string \<rightharpoonup> real option)
      \<Rightarrow> (string \<rightharpoonup> real) \<Rightarrow> string \<Rightarrow> rng \<Rightarrow> py_error + (real \<times> rng)" where
  "project cfg ag scenario years rate rate_post true0 test g =
     (case true0 test of
        None \<Rightarrow> Inl KeyError
      | Some val \<Rightarrow>
          (case rate test of
             None \<Rightarrow> Inl KeyError
           | Some r \<Rightarrow>
               (case rate_post test of
                  None \<Rightarrow> Inl KeyError
                | Some rp \<Rightarrow>
                    (case scenario_value cfg ag scenario years test val r rp g of
                       Inl e \<Rightarrow> Inl e
                     | Inr (v, g1) \<Rightarrow>
                         apply_measurement_noise test (practice cfg years test v)
                           (measurement_cv cfg) (set (measurement_lognormal cfg))
                           (allow_negative cfg) g1))))"

fun project_all ::
    "config \<Rightarrow> real option \<Rightarrow> string \<Rightarrow> real \<Rightarrow> (string \<rightharpoonup> real) \<Rightarrow> (string \<rightharpoonup> real option)
      \<Rightarrow> (string \<rightharpoonup> real) \<Rightarrow> string list \<Rightarrow> (string \<rightharpoonup> real) \<Rightarrow> rng
      \<Rightarrow> py_error + ((string \<rightharpoonup> real) \<times> rng)" where
  "project_all cfg ag scenario years rate rate_post true0 [] acc g = Inr (acc, g)"
| "project_all cfg ag scenario years rate rate_post true0 (test # tests) acc g =
     (case project cfg ag scenario years rate rate_post true0 test g of
        Inl e \<Rightarrow> Inl e
      | Inr (obs, g1) \<Rightarrow>
          (case acc test of
             None \<Rightarrow> Inl KeyError
           | Some s \<Rightarrow>
               project_all cfg ag scenario years rate rate_post true0 tests
                 (acc(test \<mapsto> s + obs)) g1))"

text \<open>One pass of \<open>for _ in range(n_sim)\<close>, on the two accumulators and the generator.\<close>

definition simulate_draw ::
    "client \<Rightarrow> config \<Rightarrow> string list \<Rightarrow> matrix \<Rightarrow> string
      \<Rightarrow> (string \<rightharpoonup> real) \<times> (string \<rightharpoonup> real) \<times> rng
      \<Rightarrow> py_error + ((string \<rightharpoonup> real) \<times> (string \<rightharpoonup> real) \<times> rng)" where
  "simulate_draw cl cfg ctests corr_L scenario st =
     (case st of (sums5, sums10, g) \<Rightarrow>
      let tests = tests_order cfg in
      case sample_correlated_z corr_L g of
        Inl e \<Rightarrow> Inl e
      | Inr (z_corr, g1) \<Rightarrow>
      (case z_map_of ctests z_corr of
        Inl e \<Rightarrow> Inl e
      | Inr z_map \<Rightarrow>
      (case sample_rates cfg z_map tests Map.empty Map.empty g1 of
        Inl e \<Rightarrow> Inl e
      | Inr (rate, rate_post, g2) \<Rightarrow>
      (case infer_all cfg (data cl) tests Map.empty g2 of
        Inl e \<Rightarrow> Inl e
      | Inr (true0, g3) \<Rightarrow>
      (case project_all cfg (age cl) scenario 5 rate rate_post true0 tests sums5 g3 of
        Inl e \<Rightarrow> Inl e
      | Inr (sums5', g4) \<Rightarrow>
      (case project_all cfg (age cl) scenario 10 rate rate_post true0 tests sums10 g4 of
        Inl e \<Rightarrow> Inl e
      | Inr (sums10', g5) \<Rightarrow> Inr (sums5', sums10', g5)))))))"

fun simulate_loop ::
    "nat \<Rightarrow> client \<Rightarrow> config \<Rightarrow> string list \<Rightarrow> matrix \<Rightarrow> string
      \<Rightarrow> (string \<rightharpoonup> real) \<times> (string \<rightharpoonup> real) \<times> rng
      \<Rightarrow> py_error + ((string \<rightharpoonup> real) \<times> (string \<rightharpoonup> real) \<times> rng)" where
  "simulate_loop 0 cl cfg ctests corr_L scenario st = Inr st"
| "simulate_loop (Suc k) cl cfg ctests corr_L scenario st =
     (case simulate_draw cl cfg ctests corr_L scenario st of
        Inl e \<Rightarrow> Inl e
      | Inr st' \<Rightarrow> simulate_loop k cl cfg ctests corr_L scenario st')"

text \<open>\<open>{t: 0.0 for t in tests}\<close>\<close>

definition zero_sums :: "string list \<Rightarrow> (string \<rightharpoonup> real)" where
  "zero_sums tests = (\<lambda>t. if t \<in> set tests then Some 0 else None)"

text \<open>
  \<open>{t: sums[t] / n_sim for t in tests}\<close>: the division raises \<open>ZeroDivisionError\<close> at
  the first test when \<open>n_sim\<close> is 0.
\<close>

definition means :: "string list \<Rightarrow> (string \<rightharpoonup> real) \<Rightarrow> int \<Rightarrow> py_error + (string \<rightharpoonup> real)" where
  "means tests acc n =
     (if tests \<noteq> [] \<and> n = 0 then Inl ZeroDivisionError
      else if None \<in> set (map acc tests) then Inl KeyError
      else Inr (\<lambda>t. if t \<in> set tests then map_option (\<lambda>s. s / real_of_int n) (acc t) else None))"

text \<open>
  \<open>simulate_client\<close> returns the two maps of means; the model returns the state of the
  generator as well, since the next client goes on drawing from it. \<open>range(n_sim)\<close> is
  empty for a negative \<open>n_sim\<close>.
\<close>

definition simulate_client ::
    "client \<Rightarrow> config \<Rightarrow> string list \<Rightarrow> matrix \<Rightarrow> string \<Rightarrow> rng
      \<Rightarrow> py_error + ((string \<rightharpoonup> real) \<times> (string \<rightharpoonup> real) \<times> rng)" where
  "simulate_client cl cfg ctests corr_L scenario g =
     (let tests = tests_order cfg in
      case simulate_loop (nat (n_sim cfg)) cl cfg ctests corr_L scenario
             (zero_sums tests, zero_sums tests, g) of
        Inl e \<Rightarrow> Inl e
      | Inr (sums5, sums10, g1) \<Rightarrow>
          (case means tests sums5 (n_sim cfg) of
             Inl e \<Rightarrow> Inl e
           | Inr mean5 \<Rightarrow>
               (case means tests sums10 (n_sim cfg) of
                  Inl e \<Rightarrow> Inl e
                | Inr mean10 \<Rightarrow> Inr (mean5, mean10, g1))))"

subsection \<open>Result rows\<close>

text \<open>A cell of a row: text, a number, or \<open>None\<close> (which the writer leaves out).\<close>

datatype cell = CStr string | CNum real | CNone

definition baseline_cell :: "(string \<rightharpoonup> real option) \<Rightarrow> string \<Rightarrow> cell" where
  "baseline_cell d t =
     (case d t of None \<Rightarrow> CStr '''' | Some None \<Rightarrow> CNone | Some (Some v) \<Rightarrow> CNum v)"

definition mean_cell :: "(string \<rightharpoonup> real) \<Rightarrow> string \<Rightarrow> cell" where
  "mean_cell m t = (case m t of None \<Rightarrow> CStr '''' | Some v \<Rightarrow> CNum v)"

definition build_sheet_rows ::
    "client \<Rightarrow> (string \<rightharpoonup> real) \<Rightarrow> (string \<rightharpoonup> real) \<Rightarrow> string list \<Rightarrow> cell list list" where
  "build_sheet_rows cl mean5 mean10 tests =
     [CStr ''Test'', CStr ''Baseline'', CStr ''Year 5 Mean'', CStr ''Year 10 Mean'']
     # map (\<lambda>t. [CStr t, baseline_cell (data cl) t, mean_cell mean5 t, mean_cell mean10 t]) tests"

subsection \<open>A worked configuration\<close>

text \<open>
  One test, VO2 max: higher is better, relative decline of 0.05 per decade, no
  acceleration age, no measurement noise, no rate uncertainty, no practice effect,
  one draw; and a client of age 45 whose VO2 max is 40.
\<close>

definition vo2_improvement :: improvement_cfg where
  "vo2_improvement =
     \<lparr>vo2_age_cutoff = 50, vo2_under = (1 / 10, 1 / 10), vo2_over = (1 / 20, 1 / 20),
      homa_ir_reduction =
        \<lparr>homa_q10 = 1 / 10, homa_q90 = 1 / 2, homa_median = 1 / 4,
         homa_min = None, homa_max = None\<rparr>,
      ranges = Map.empty\<rparr>"

definition vo2_cfg :: config where
  "vo2_cfg =
     \<lparr>tests_order = [''VO2 max''],
      higher_is_better = [''VO2 max''],
      lower_is_better = [],
      cognitive_tests = [],
      absolute_decline_tests = None,
      allow_negative_tests = None,
      base_rate_per_decade = [''VO2 max'' \<mapsto> 1 / 20],
      post_rate_per_decade = Map.empty,
      accelerate_from_age = Map.empty,
      rate_uncertainty_cv = [''VO2 max'' \<mapsto> 0],
      rate_lognormal = [],
      measurement_cv = [''VO2 max'' \<mapsto> 0],
      measurement_lognormal = [],
      improvement = vo2_improvement,
      practice_effect = \<lparr>pe_enabled = False, pe_year = None, pe_tests = [], pe_percent = 0\<rparr>,
      n_sim = 1\<rparr>"

definition vo2_client :: client where
  "vo2_client =
     \<lparr>sheet_name = ''Sheet1'', name = ''Client'', age = Some 45,
      data = [''VO2 max'' \<mapsto> Some 40]\<rparr>"

text \<open>A client of the same age whose sheet has no VO2 max row.\<close>

definition untested_client :: client where
  "untested_client =
     \<lparr>sheet_name = ''Sheet2'', name = ''Other'', age = Some 45, data = Map.empty\<rparr>"

text \<open>
  Two tests for the rate loop: VO2 max, with an additive rate model, and ApoB, with a
  lognormal one; both have a rate uncertainty of 0.2 and no measurement noise. The
  client has both measurements.
\<close>

definition rates_cfg :: config where
  "rates_cfg =
     \<lparr>tests_order = [''VO2 max'', ''ApoB''],
      higher_is_better = [''VO2 max''],
      lower_is_better = [''ApoB''],
      cognitive_tests = [],
      absolute_decline_tests = None,
      allow_negative_tests = None,
      base_rate_per_decade = [''VO2 max'' \<mapsto> 1 / 20, ''ApoB'' \<mapsto> 1 / 20],
      post_rate_per_decade = Map.empty,
      accelerate_from_age = Map.empty,
      rate_uncertainty_cv = [''VO2 max'' \<mapsto> 1 / 5, ''ApoB'' \<mapsto> 1 / 5],
      rate_lognormal = [''ApoB''],
      measurement_cv = [''VO2 max'' \<mapsto> 0, ''ApoB'' \<mapsto> 0],
      measurement_lognormal = [],
      improvement = vo2_improvement,
      practice_effect = \<lparr>pe_enabled = False, pe_year = None, pe_tests = [], pe_percent = 0\<rparr>,
      n_sim = 1\<rparr>"

definition rates_client :: client where
  "rates_client =
     \<lparr>sheet_name = ''Sheet3'', name = ''Third'', age = Some 45,
      data = [''VO2 max'' \<mapsto> Some 40, ''ApoB'' \<mapsto> Some 100]\<rparr>"

text \<open>
  The one-test configuration with an absolute decline, an acceleration age of 48 and a
  post-acceleration rate of 0.1 per decade.
\<close>

definition accel_cfg :: config where
  "accel_cfg =
     vo2_cfg\<lparr>absolute_decline_tests := Some [''VO2 max''],
             post_rate_per_decade := [''VO2 max'' \<mapsto> 1 / 10],
             accelerate_from_age := [''VO2 max'' \<mapsto> 48]\<rparr>"

subsection \<open>Predicates for the correlation engine\<close>

text \<open>Every row of the matrix is as long as the matrix: an \<open>n \<times> n\<close> list of lists.\<close>

definition square :: "matrix \<Rightarrow> bool" where
  "square m \<longleftrightarrow> list_all (\<lambda>row. length row = length m) m"

text \<open>
  The cells \<open>(p, q)\<close> that the two loops of \<open>cholesky\<close> have filled when they reach
  row \<open>i\<close>, column \<open>j\<close>: the earlier rows up to their diagonal, and row \<open>i\<close> before \<open>j\<close>.
\<close>

definition done_cell :: "nat \<Rightarrow> nat \<Rightarrow> nat \<Rightarrow> nat \<Rightarrow> bool" where
  "done_cell i j p q \<longleftrightarrow> q \<le> p \<and> (p < i \<or> (p = i \<and> q < j))"

text \<open>
  The loop invariant of \<open>cholesky\<close>: \<open>L\<close> keeps its shape, is zero outside the filled
  cells, reproduces \<open>m\<close> on the filled cells, and has a positive diagonal there.
\<close>

definition chol_inv :: "matrix \<Rightarrow> matrix \<Rightarrow> nat \<Rightarrow> nat \<Rightarrow> bool" where
  "chol_inv m L i j \<longleftrightarrow>
     length L = length m \<and> square L \<and>
     (\<forall>p q. p < length m \<longrightarrow> q < length m \<longrightarrow> \<not> done_cell i j p q \<longrightarrow> L ! p ! q = 0) \<and>
     (\<forall>p q. p < length m \<longrightarrow> done_cell i j p q \<longrightarrow>
        (\<Sum>k<Suc q. L ! p ! k * L ! q ! k) = m ! p ! q) \<and>
     (\<forall>q. q < length m \<longrightarrow> done_cell i j q q \<longrightarrow> 0 < L ! q ! q)"

definition symmetric :: "matrix \<Rightarrow> bool" where
  "symmetric m \<longleftrightarrow> (\<forall>i<length m. \<forall>j<length m. m ! i ! j = m ! j ! i)"

text \<open>Two correlation specifications over two tests: correlation 0.6, and correlation 1.\<close>

definition pair_cc :: correlations_cfg where
  "pair_cc =
     \<lparr>corr_tests = [''VO2 max'', ''Grip Strength''],
      corr_pairs = [(''VO2 max'', ''Grip Strength'', 3 / 5)]\<rparr>"


section \<open>Properties\<close>

subsection \<open>Rate sampling\<close>

lemma sample_rate_value:
  assumes "sample_rate test mu cv is_lognormal z g = Inr (r, g')"
  shows "r = (if is_lognormal
              then exp (ln mu + sqrt (ln (1 + cv\<^sup>2)) * (case z of Some z0 \<Rightarrow> z0 | None \<Rightarrow> shd g))
              else max 0 (mu + \<bar>mu\<bar> * cv * (case z of Some z0 \<Rightarrow> z0 | None \<Rightarrow> shd g)))
         \<and> g' = (case z of Some z0 \<Rightarrow> g | None \<Rightarrow> stl g)"
  using assms
  by (auto simp: sample_rate_def lognormal_sigma_from_cv_def gauss_def Let_def power2_eq_square max_def
      split: if_splits option.splits)

lemma sample_rates_other:
  "sample_rates cfg zm tests rate rp g = Inr (rate', rp', g') \<Longrightarrow> t \<notin> set tests
     \<Longrightarrow> rate' t = rate t \<and> rp' t = rp t"
  by (induction tests arbitrary: rate rp g)
     (auto split: option.splits sum.splits prod.splits)

lemma sample_rates_at:
  "sample_rates cfg zm tests rate rp g = Inr (rate', rp', g') \<Longrightarrow> t \<in> set tests \<Longrightarrow>
     \<exists>mu cv r g1 g2.
           base_rate_per_decade cfg t = Some mu \<and> rate_uncertainty_cv cfg t = Some cv \<and>
           sample_rate t mu cv (t \<in> set (rate_lognormal cfg)) (zm t) g1 = Inr (r, g2) \<and>
           rate' t = Some r \<and>
           rp' t = Some (derive_rate_post (post_rate_per_decade cfg t) r mu)"
proof (induction tests arbitrary: rate rp g)
  case Nil
  then show ?case by simp
next
  case (Cons test tests)
  from Cons.prems(1) obtain mu cv r g1 where
    mu: "base_rate_per_decade cfg test = Some mu" and
    cv: "rate_uncertainty_cv cfg test = Some cv" and
    sr: "sample_rate test mu cv (test \<in> set (rate_lognormal cfg)) (zm test) g = Inr (r, g1)" and
    rest: "sample_rates cfg zm tests (rate(test \<mapsto> r))
             (rp(test \<mapsto> derive_rate_post (post_rate_per_decade cfg test) r mu)) g1
           = Inr (rate', rp', g')"
    by (auto split: option.splits sum.splits prod.splits)
  show ?case
  proof (cases "t \<in> set tests")
    case True
    from Cons.IH [OF rest True] show ?thesis .
  next
    case False
    with Cons.prems(2) have "t = test" by simp
    with sample_rates_other [OF rest False] mu cv sr show ?thesis
      by auto
  qed
qed

lemma fold_z_map:
  "k \<le> length ctests \<Longrightarrow>
   (t \<notin> set (take k ctests) \<longrightarrow> fold (\<lambda>i m. m(ctests ! i \<mapsto> zc ! i)) [0..<k] Map.empty t = None) \<and>
   (t \<in> set (take k ctests) \<longrightarrow>
      (\<exists>i<k. ctests ! i = t \<and> fold (\<lambda>i m. m(ctests ! i \<mapsto> zc ! i)) [0..<k] Map.empty t = Some (zc ! i)))"
proof (induction k)
  case 0
  then show ?case by simp
next
  case (Suc k)
  from Suc.prems have k: "k < length ctests" by simp
  note IH = Suc.IH [OF less_imp_le [OF k]]
  have tk: "take (Suc k) ctests = take k ctests @ [ctests ! k]"
    using k by (simp add: take_Suc_conv_app_nth)
  show ?case
  proof (cases "ctests ! k = t")
    case True
    then show ?thesis using tk by auto
  next
    case False
    then show ?thesis using IH tk by (auto intro: less_SucI)
  qed
qed

lemma z_map_of_at:
  assumes "z_map_of ctests zc = Inr zm"
  shows "(t \<notin> set ctests \<longrightarrow> zm t = None) \<and>
         (t \<in> set ctests \<longrightarrow> (\<exists>i<length ctests. ctests ! i = t \<and> zm t = Some (zc ! i)))"
proof -
  from assms have zm: "zm = fold (\<lambda>i m. m(ctests ! i \<mapsto> zc ! i)) [0..<length ctests] Map.empty"
    by (auto simp: z_map_of_def split: if_splits)
  show ?thesis
    using fold_z_map [of "length ctests" ctests t zc] unfolding zm by simp
qed

text \<open>
  C10. A test with a lognormal rate model needs a strictly positive base rate:
  \<open>sample_rate\<close> takes the logarithm of \<open>mu\<close> and raises \<open>ValueError\<close> for \<open>mu \<le> 0\<close>; for
  \<open>mu > 0\<close> the lognormal branch always returns, and the rate it returns is strictly
  positive. Nothing checks \<open>mu\<close> before the simulation: such a base rate in the
  configuration reaches \<open>sample_rate\<close> in the first loop over the tests and stops the draw.
\<close>

theorem lognormal_rate_needs_positive_mu:
  "(mu \<le> 0 \<longrightarrow> sample_rate test mu cv True z g = Inl ValueError) \<and>
   (0 < mu \<longrightarrow> (\<exists>r g'. sample_rate test mu cv True z g = Inr (r, g') \<and> 0 < r)) \<and>
   (test \<in> set (rate_lognormal cfg) \<and> base_rate_per_decade cfg test = Some mu \<and>
    rate_uncertainty_cv cfg test = Some cv \<and> mu \<le> 0
      \<longrightarrow> sample_rates cfg zm (test # tests) rate rp g = Inl ValueError)"
  by (auto simp: sample_rate_def Let_def split: option.splits prod.splits)

theorem lognormal_rate_needs_positive_mu_witness:
  "sample_rate ''ApoB'' 0 (1 / 5) True None (sconst 0) = Inl ValueError \<and>
   (\<exists>r g'. sample_rate ''ApoB'' (1 / 20) (1 / 5) True None (sconst 0) = Inr (r, g') \<and> 0 < r)"
  using lognormal_rate_needs_positive_mu [of 0 "''ApoB''" "1 / 5" None "sconst 0"]
        lognormal_rate_needs_positive_mu [of "1 / 20" "''ApoB''" "1 / 5" None "sconst 0"]
  by simp

text \<open>
  C7, as the code has it. For a test with a configured post rate \<open>p\<close> and base rate
  \<open>mu\<close>, the post rate of a draw with sampled base rate \<open>r\<close> is \<open>p * (r / mu)\<close> when
  \<open>mu > 0\<close>; when \<open>mu \<le> 0\<close> it is \<open>p\<close> itself, unscaled.
\<close>

theorem post_rate_scaling:
  assumes "sample_rates cfg zm tests rate0 rp0 g = Inr (rate, rp, g')"
    and "t \<in> set tests"
    and "post_rate_per_decade cfg t = Some p"
  shows "\<exists>mu r. base_rate_per_decade cfg t = Some mu \<and> rate t = Some r \<and>
           rp t = Some (Some (if mu > 0 then p * (r / mu) else p))"
  using sample_rates_at [OF assms(1,2)] assms(3)
  by (auto simp: derive_rate_post_def)

theorem post_rate_scaling_witness:
  "\<exists>mu r. base_rate_per_decade (vo2_cfg\<lparr>rate_uncertainty_cv := [''VO2 max'' \<mapsto> 1 / 5],
              post_rate_per_decade := [''VO2 max'' \<mapsto> 1 / 10]\<rparr>) ''VO2 max'' = Some mu \<and>
      [''VO2 max'' \<mapsto> 11 / 200] ''VO2 max'' = Some r \<and>
      [''VO2 max'' \<mapsto> Some (11 / 100)] ''VO2 max''
        = Some (Some (if mu > 0 then 1 / 10 * (r / mu) else 1 / 10))"
proof -
  have h: "sample_rates (vo2_cfg\<lparr>rate_uncertainty_cv := [''VO2 max'' \<mapsto> 1 / 5],
              post_rate_per_decade := [''VO2 max'' \<mapsto> 1 / 10]\<rparr>)
              [''VO2 max'' \<mapsto> 1 / 2] [''VO2 max''] Map.empty Map.empty (sconst 0)
            = Inr ([''VO2 max'' \<mapsto> 11 / 200], [''VO2 max'' \<mapsto> Some (11 / 100)], sconst 0)"
    by (simp add: vo2_cfg_def sample_rate_def derive_rate_post_def)
  show ?thesis
    by (rule post_rate_scaling [OF h]) (simp_all add: vo2_cfg_def)
qed

text \<open>
  C7 as stated fails for a base rate that is not positive: with base rate \<open>-0.1\<close>, no
  rate uncertainty and post rate \<open>0.2\<close>, the sampled base rate is clamped to 0, so the
  ratio is 0 and the scaled post rate would be 0; the code uses \<open>0.2\<close>.
\<close>

theorem post_rate_scaling_counterexample:
  "sample_rates
     (vo2_cfg\<lparr>base_rate_per_decade := [''VO2 max'' \<mapsto> - (1 / 10)],
              post_rate_per_decade := [''VO2 max'' \<mapsto> 1 / 5]\<rparr>)
     Map.empty [''VO2 max''] Map.empty Map.empty (sconst 0)
   = Inr ([''VO2 max'' \<mapsto> 0], [''VO2 max'' \<mapsto> Some (1 / 5)], sconst 0)
   \<and> (1 / 5 :: real) \<noteq> 1 / 5 * (0 / (- (1 / 10)))"
  by (simp add: vo2_cfg_def sample_rate_def derive_rate_post_def gauss_def)

subsection \<open>Measurement noise\<close>

text \<open>
  C8, as the code has it. With a measurement coefficient of variation of 0, the
  de-noise step, a decline over 0 years and the re-noise step return the observed
  baseline \<open>b\<close> unchanged whenever \<open>b \<ge> 0\<close>, and for a negative \<open>b\<close> when the test is
  in \<open>allow_negative_tests\<close> and its noise is additive.
\<close>

theorem denoise_renoise_roundtrip:
  assumes "mcv test = Some 0" and "0 \<le> b \<or> (test \<in> allow_neg \<and> test \<notin> mlog)"
  shows "\<exists>g1 g2. infer_true_from_observed test (Some b) mcv mlog allow_neg g = Inr (b, g1) \<and>
           apply_decline b age_start 0 rate_base rate_post accel_age higher use_absolute = Inr b \<and>
           apply_measurement_noise test b mcv mlog allow_neg g1 = Inr (b, g2)"
  using assms
  by (auto simp: infer_true_from_observed_def apply_decline_def apply_measurement_noise_def
        lognormal_sigma_from_cv_def gauss_def Let_def)

theorem denoise_renoise_roundtrip_witness:
  "\<exists>g1 g2. infer_true_from_observed ''Grip Strength'' (Some 30) [''Grip Strength'' \<mapsto> 0] {} {}
              (sconst 0) = Inr (30, g1) \<and>
           apply_decline 30 45 0 (1 / 20) None None True False = Inr 30 \<and>
           apply_measurement_noise ''Grip Strength'' 30 [''Grip Strength'' \<mapsto> 0] {} {} g1
             = Inr (30, g2)"
  by (rule denoise_renoise_roundtrip) simp_all

text \<open>
  C8 as stated fails for a negative baseline of a test that does not allow negative
  values: a grip strength of \<open>-1\<close> is clamped to 0 by the de-noise step, and 0 comes back.
\<close>

theorem denoise_renoise_roundtrip_counterexample:
  "infer_true_from_observed ''Grip Strength'' (Some (- 1)) [''Grip Strength'' \<mapsto> 0] {} {}
     (sconst 0) = Inr (0, sconst 0) \<and>
   apply_decline 0 45 0 (1 / 20) None None True False = Inr 0 \<and>
   apply_measurement_noise ''Grip Strength'' 0 [''Grip Strength'' \<mapsto> 0] {} {} (sconst 0)
     = Inr (0, sconst 0)"
  by (simp add: infer_true_from_observed_def apply_decline_def apply_measurement_noise_def gauss_def)

subsection \<open>The worked configuration, end to end\<close>

lemmas run_defs = simulate_client_def simulate_draw_def
          sample_correlated_z_def z_map_of_def sample_rate_def derive_rate_post_def gauss_def
          observed_def infer_true_from_observed_def allow_negative_def zero_sums_def
          project_def scenario_value_def apply_decline_def split_years_def apply_segment_def
          py_pow_def absolute_decline_def age_or_zero_def practice_def
          apply_measurement_noise_def means_def sample_improvement_fraction_def uniform_def improve_def

lemma vo2_decline_run:
  "simulate_client vo2_client vo2_cfg [] [] ''decline'' g
     = Inr ([''VO2 max'' \<mapsto> 40 * (19 / 20) powr (1 / 2)], [''VO2 max'' \<mapsto> 38],
            stl (stl (stl (stl g))))"
  by (simp add: run_defs vo2_cfg_def vo2_client_def fun_eq_iff)


lemma untested_run:
  "simulate_client untested_client vo2_cfg [] [] ''decline'' g
     = Inr ([''VO2 max'' \<mapsto> 0], [''VO2 max'' \<mapsto> 0], stl (stl (stl (stl g))))"
  by (simp add: run_defs vo2_cfg_def untested_client_def fun_eq_iff)

text \<open>
  C9. For the client of age 45 with VO2 max 40 and the one-test configuration above
  (higher is better, relative decline, base rate 0.05 per decade, no acceleration,
  no noise, no rate uncertainty, one draw, no correlated tests), whatever the state of
  the generator, the decline scenario gives \<open>40 * 0.95 ^ 0.5\<close> at year 5, which is within
  0.02 of 39, and 38 at year 10.
\<close>

theorem vo2_decline_end_to_end:
  "simulate_client vo2_client vo2_cfg [] [] ''decline'' g
     = Inr ([''VO2 max'' \<mapsto> 40 * (19 / 20) powr (1 / 2)], [''VO2 max'' \<mapsto> 38],
            stl (stl (stl (stl g))))
   \<and> \<bar>40 * (19 / 20) powr (1 / 2) - 39\<bar> < (1 / 50 :: real)
   \<and> build_correlation \<lparr>corr_tests = [], corr_pairs = []\<rparr> = Inr ([], [])"
proof -
  have a: "simulate_client vo2_client vo2_cfg [] [] ''decline'' g
     = Inr ([''VO2 max'' \<mapsto> 40 * (19 / 20) powr (1 / 2)], [''VO2 max'' \<mapsto> 38],
            stl (stl (stl (stl g))))"
    by (rule vo2_decline_run)
  have "sqrt (19 / 20) < 39 / 40 + 1 / 2000"
    by (rule real_less_lsqrt) (simp_all add: power2_eq_square)
  moreover have "39 / 40 - 1 / 2000 < sqrt (19 / 20)"
    by (rule real_less_rsqrt) (simp add: power2_eq_square)
  moreover have "(19 / 20 :: real) powr (1 / 2) = sqrt (19 / 20)"
    by (simp add: powr_half_sqrt)
  ultimately have b: "\<bar>40 * (19 / 20) powr (1 / 2) - 39\<bar> < (1 / 50 :: real)"
    by linarith
  have c: "build_correlation \<lparr>corr_tests = [], corr_pairs = []\<rparr> = Inr ([], [])"
    by (simp add: build_correlation_def correlation_matrix_def unit_diagonal_def epsilons_def
          corr_eps_def cholesky_def)
  from a b c show ?thesis by simp
qed

subsection \<open>Age-segmented decline\<close>









lemma apply_decline_chain:
  "apply_decline v a y rb rp acc hib ua =
     (case apply_segment ua hib v rb (fst (split_years a y acc)) of
        Inl e \<Rightarrow> Inl e
      | Inr val \<Rightarrow>
          apply_segment ua hib val (case rp of Some p \<Rightarrow> p | None \<Rightarrow> rb)
            (snd (split_years a y acc)))"
proof (cases "y \<le> 0")
  case True
  then have "fst (split_years a y acc) \<le> 0" "snd (split_years a y acc) \<le> 0"
    by (auto simp: split_years_def Let_def split: option.splits)
  with True show ?thesis
    by (simp add: apply_decline_def apply_segment_def)
next
  case False
  then show ?thesis
    by (cases "split_years a y acc")
       (auto simp: apply_decline_def apply_segment_def split: sum.splits)
qed





subsection \<open>The loops of one draw\<close>

lemma infer_all_other:
  "infer_all cfg d tests true0 g = Inr (true0', g') \<Longrightarrow> t \<notin> set tests \<Longrightarrow> true0' t = true0 t"
  by (induction tests arbitrary: true0 g) (auto split: sum.splits prod.splits)

lemma infer_all_at:
  "infer_all cfg d tests true0 g = Inr (true0', g') \<Longrightarrow> t \<in> set tests \<Longrightarrow>
     \<exists>v g1 g2. infer_true_from_observed t (observed d t) (measurement_cv cfg)
                  (set (measurement_lognormal cfg)) (allow_negative cfg) g1 = Inr (v, g2) \<and>
               true0' t = Some v"
proof (induction tests arbitrary: true0 g)
  case Nil
  then show ?case by simp
next
  case (Cons test tests)
  from Cons.prems(1) obtain v g1 where
    v: "infer_true_from_observed test (observed d test) (measurement_cv cfg)
          (set (measurement_lognormal cfg)) (allow_negative cfg) g = Inr (v, g1)" and
    rest: "infer_all cfg d tests (true0(test \<mapsto> v)) g1 = Inr (true0', g')"
    by (auto split: sum.splits prod.splits)
  show ?case
  proof (cases "t \<in> set tests")
    case True
    from Cons.IH [OF rest True] show ?thesis .
  next
    case False
    with Cons.prems(2) have "t = test" by simp
    with infer_all_other [OF rest False] v show ?thesis by auto
  qed
qed

lemma project_all_other:
  "project_all cfg ag sc years rate rp true0 tests acc g = Inr (acc', g') \<Longrightarrow> t \<notin> set tests
     \<Longrightarrow> acc' t = acc t"
  by (induction tests arbitrary: acc g) (auto split: sum.splits prod.splits option.splits)











lemma means_at:
  "means tests acc n = Inr m \<Longrightarrow> t \<in> set tests \<Longrightarrow>
     \<exists>s. acc t = Some s \<and> m t = Some (s / real_of_int n)"
  by (auto simp: means_def split: if_splits) (metis image_eqI not_Some_eq)




subsection \<open>A test without a baseline\<close>

lemma observed_absent:
  "d t = None \<Longrightarrow> observed (d(t \<mapsto> Some 0)) x = observed d x"
  by (simp add: observed_def)

lemma infer_all_observed:
  "(\<And>x. observed d' x = observed d x) \<Longrightarrow>
     infer_all cfg d' tests true0 g = infer_all cfg d tests true0 g"
  by (induction tests arbitrary: true0 g) (simp_all split: sum.splits)

lemma simulate_draw_observed:
  assumes "\<And>x. observed (data cl') x = observed (data cl) x" and "age cl' = age cl"
  shows "simulate_draw cl' cfg ct L sc st = simulate_draw cl cfg ct L sc st"
  unfolding simulate_draw_def infer_all_observed [of "data cl'" "data cl", OF assms(1)] assms(2)
  by (rule refl)

lemma simulate_loop_observed:
  assumes "\<And>x. observed (data cl') x = observed (data cl) x" and "age cl' = age cl"
  shows "simulate_loop n cl' cfg ct L sc st = simulate_loop n cl cfg ct L sc st"
  by (induction n arbitrary: st)
     (simp_all add: simulate_draw_observed [of cl' cl, OF assms] split: sum.splits)

text \<open>
  C1, as the code has it. A test of \<open>tests_order\<close> for which the client's data has no
  entry is not skipped: \<open>data.get(test, 0.0)\<close> makes the simulation run exactly as it
  does for an observed baseline of 0.0, and whenever the simulation returns, both
  means of that test are computed and \<open>build_sheet_rows\<close> writes them in the test's row,
  next to an empty baseline cell.
\<close>

theorem absent_baseline_simulated_as_zero:
  assumes "t \<in> set (tests_order cfg)" and "data cl t = None"
  shows "simulate_client cl cfg ct L sc g
           = simulate_client (cl\<lparr>data := (data cl)(t \<mapsto> Some 0)\<rparr>) cfg ct L sc g
         \<and> (\<forall>m5 m10 g'. simulate_client cl cfg ct L sc g = Inr (m5, m10, g') \<longrightarrow>
               (\<exists>y5 y10. m5 t = Some y5 \<and> m10 t = Some y10 \<and>
                  [CStr t, CStr '''', CNum y5, CNum y10]
                    \<in> set (build_sheet_rows cl m5 m10 (tests_order cfg))))"
proof -
  have obs: "\<And>x. observed (data (cl\<lparr>data := (data cl)(t \<mapsto> Some 0)\<rparr>)) x = observed (data cl) x"
    using observed_absent [of "data cl" t, OF assms(2)] by simp
  have eq: "simulate_client cl cfg ct L sc g
           = simulate_client (cl\<lparr>data := (data cl)(t \<mapsto> Some 0)\<rparr>) cfg ct L sc g"
    by (simp add: simulate_client_def
          simulate_loop_observed [of "cl\<lparr>data := (data cl)(t \<mapsto> Some 0)\<rparr>" cl, OF obs])
  have rows: "\<exists>y5 y10. m5 t = Some y5 \<and> m10 t = Some y10 \<and>
                  [CStr t, CStr '''', CNum y5, CNum y10]
                    \<in> set (build_sheet_rows cl m5 m10 (tests_order cfg))"
    if sim: "simulate_client cl cfg ct L sc g = Inr (m5, m10, g')" for m5 m10 g'
  proof -
    from sim obtain s5 s10 where
      me5: "means (tests_order cfg) s5 (n_sim cfg) = Inr m5" and
      me10: "means (tests_order cfg) s10 (n_sim cfg) = Inr m10"
      by (auto simp: simulate_client_def Let_def split: sum.splits prod.splits)
    from means_at [OF me5 assms(1)] means_at [OF me10 assms(1)] obtain y5 y10 where
      y: "m5 t = Some y5" "m10 t = Some y10" by blast
    with assms show ?thesis
      by (auto simp: build_sheet_rows_def baseline_cell_def mean_cell_def image_iff
            intro!: bexI [of _ t])
  qed
  from eq rows show ?thesis by blast
qed

theorem absent_baseline_simulated_as_zero_witness:
  "\<exists>y5 y10. [''VO2 max'' \<mapsto> 0 :: real] ''VO2 max'' = Some y5 \<and>
      [''VO2 max'' \<mapsto> 0 :: real] ''VO2 max'' = Some y10 \<and>
      [CStr ''VO2 max'', CStr '''', CNum y5, CNum y10]
        \<in> set (build_sheet_rows untested_client [''VO2 max'' \<mapsto> 0] [''VO2 max'' \<mapsto> 0]
                 (tests_order vo2_cfg))"
proof -
  have t: "''VO2 max'' \<in> set (tests_order vo2_cfg)" by (simp add: vo2_cfg_def)
  have d: "data untested_client ''VO2 max'' = None" by (simp add: untested_client_def)
  from absent_baseline_simulated_as_zero [OF t d, of "[]" "[]" "''decline''" "sconst 0"]
       untested_run [of "sconst 0"]
  show ?thesis by simp
qed

text \<open>
  C1 as stated fails: for the client without a VO2 max row, the run returns the means
  0 and 0 for VO2 max, and the row written for the test holds them.
\<close>

theorem absent_baseline_counterexample:
  "data untested_client ''VO2 max'' = None \<and>
   simulate_client untested_client vo2_cfg [] [] ''decline'' (sconst 0)
     = Inr ([''VO2 max'' \<mapsto> 0], [''VO2 max'' \<mapsto> 0], sconst 0) \<and>
   build_sheet_rows untested_client [''VO2 max'' \<mapsto> 0] [''VO2 max'' \<mapsto> 0] (tests_order vo2_cfg)
     = [[CStr ''Test'', CStr ''Baseline'', CStr ''Year 5 Mean'', CStr ''Year 10 Mean''],
        [CStr ''VO2 max'', CStr '''', CNum 0, CNum 0]]"
  using untested_run [of "sconst 0"]
  by (simp add: build_sheet_rows_def baseline_cell_def mean_cell_def untested_client_def vo2_cfg_def)

text \<open>
  An entry that is present but is not a number is another matter: the \<open>None\<close> that the
  reader stores for it reaches \<open>infer_true_from_observed\<close> and stops the run.
\<close>

lemma none_baseline_raises:
  "simulate_client (untested_client\<lparr>data := [''VO2 max'' \<mapsto> None]\<rparr>) vo2_cfg [] []
     ''decline'' g = Inl TypeError"
  by (simp add: run_defs vo2_cfg_def untested_client_def)

subsection \<open>Cholesky factorization\<close>

lemma square_nth: "square m \<Longrightarrow> p < length m \<Longrightarrow> length (m ! p) = length m"
  by (simp add: square_def list_all_length)

lemma fold_add_sum:
  "fold (\<lambda>k s. s + f k) [0..<j] a = a + (\<Sum>k<j. f k)"
  by (induction j arbitrary: a) (simp_all add: algebra_simps)

lemma cholesky_sum_eq: "cholesky_sum L i j = (\<Sum>k<j. L ! i ! k * L ! j ! k)"
  by (simp add: cholesky_sum_def fold_add_sum)

lemma set_cell_nth:
  assumes "length L = n" "square L" "i < n" "j < n" "p < n"
  shows "L[i := (L ! i)[j := x]] ! p ! q = (if p = i \<and> q = j then x else L ! p ! q)"
  using assms by (auto simp: nth_list_update square_nth)

lemma set_cell_square:
  assumes "square L"
  shows "square (L[i := (L ! i)[j := x]])"
proof (cases "i < length L")
  case True
  with assms show ?thesis
    by (auto simp: square_def list_all_length nth_list_update)
next
  case False
  then show ?thesis using assms by (simp add: list_update_beyond not_less)
qed

lemma chol_inv_init: "chol_inv m (replicate (length m) (replicate (length m) 0)) 0 0"
  by (auto simp: chol_inv_def square_def list_all_length done_cell_def)

lemma cholesky_cell_step:
  assumes inv: "chol_inv m L i j" and ji: "j \<le> i" and i: "i < length m"
    and cell: "cholesky_cell m L i j = Inr L'"
  shows "chol_inv m L' i (Suc j)"
proof -
  let ?n = "length m"
  from inv have len: "length L = ?n" and sq: "square L"
    and zero: "\<And>p q. p < ?n \<Longrightarrow> q < ?n \<Longrightarrow> \<not> done_cell i j p q \<Longrightarrow> L ! p ! q = 0"
    and sums: "\<And>p q. p < ?n \<Longrightarrow> done_cell i j p q \<Longrightarrow>
                 (\<Sum>k<Suc q. L ! p ! k * L ! q ! k) = m ! p ! q"
    and pos: "\<And>q. q < ?n \<Longrightarrow> done_cell i j q q \<Longrightarrow> 0 < L ! q ! q"
    by (auto simp: chol_inv_def)
  have j: "j < ?n" using ji i by simp
  define s where "s = (\<Sum>k<j. L ! i ! k * L ! j ! k)"
  define x where "x = (if i = j then sqrt (m ! i ! i - s) else (m ! i ! j - s) / (L ! j ! j))"
  from cell have L': "L' = L[i := (L ! i)[j := x]]"
    by (auto simp: cholesky_cell_def cholesky_sum_eq Let_def x_def s_def split: if_splits)
  have nth: "\<And>p q. p < ?n \<Longrightarrow> L' ! p ! q = (if p = i \<and> q = j then x else L ! p ! q)"
    unfolding L' using set_cell_nth [OF len sq i j] by simp
  have xj: "x * (if i = j then x else L ! j ! j) = m ! i ! j - s"
  proof (cases "i = j")
    case True
    with cell have "0 < m ! i ! i - s"
      by (auto simp: cholesky_cell_def cholesky_sum_eq Let_def s_def split: if_splits)
    with True show ?thesis by (simp add: x_def)
  next
    case False
    with ji have "done_cell i j j j" by (simp add: done_cell_def)
    from pos [OF j this] False show ?thesis by (simp add: x_def)
  qed
  have new: "(\<Sum>k<Suc j. L' ! i ! k * L' ! j ! k) = m ! i ! j"
  proof -
    have "(\<Sum>k<j. L' ! i ! k * L' ! j ! k) = s"
      unfolding s_def using i j by (intro sum.cong) (auto simp: nth)
    moreover have "L' ! i ! j * L' ! j ! j = m ! i ! j - s"
      using xj i j by (auto simp: nth split: if_splits)
    ultimately show ?thesis by simp
  qed
  have old: "(\<Sum>k<Suc q. L' ! p ! k * L' ! q ! k) = m ! p ! q"
    if p: "p < ?n" and d: "done_cell i j p q" for p q
  proof -
    from d have qp: "q \<le> p" and pi: "p < i \<or> (p = i \<and> q < j)" by (auto simp: done_cell_def)
    have q: "q < ?n" using qp p by simp
    have "(\<Sum>k<Suc q. L' ! p ! k * L' ! q ! k) = (\<Sum>k<Suc q. L ! p ! k * L ! q ! k)"
      using p q pi qp ji by (intro sum.cong) (auto simp: nth)
    with sums [OF p d] show ?thesis by simp
  qed
  have sums': "(\<Sum>k<Suc q. L' ! p ! k * L' ! q ! k) = m ! p ! q"
    if p: "p < ?n" and d: "done_cell i (Suc j) p q" for p q
  proof (cases "p = i \<and> q = j")
    case True
    with new show ?thesis by simp
  next
    case False
    with d have "done_cell i j p q" by (auto simp: done_cell_def)
    from old [OF p this] show ?thesis .
  qed
  have zero': "L' ! p ! q = 0"
    if p: "p < ?n" and q: "q < ?n" and nd: "\<not> done_cell i (Suc j) p q" for p q
  proof -
    from nd ji have "\<not> (p = i \<and> q = j)" "\<not> done_cell i j p q"
      by (auto simp: done_cell_def)
    with zero [OF p q] nth [OF p, of q] show ?thesis by auto
  qed
  have pos': "0 < L' ! q ! q" if q: "q < ?n" and d: "done_cell i (Suc j) q q" for q
  proof (cases "q = i \<and> q = j")
    case True
    then have ij: "i = j" by simp
    with cell have "0 < m ! i ! i - s"
      by (auto simp: cholesky_cell_def cholesky_sum_eq Let_def s_def split: if_splits)
    with True ij show ?thesis using nth [OF q, of q] by (simp add: x_def)
  next
    case False
    with d have dd: "done_cell i j q q" by (auto simp: done_cell_def)
    from False have "\<not> (q = i \<and> q = j)" by simp
    with pos [OF q dd] nth [OF q, of q] show ?thesis by auto
  qed
  have "length L' = ?n" "square L'"
    unfolding L' using len sq by (simp_all add: set_cell_square)
  with zero' sums' pos' show ?thesis
    unfolding chol_inv_def by blast
qed

lemma cholesky_cell_error:
  assumes inv: "chol_inv m L i j" and ji: "j \<le> i" and i: "i < length m"
    and sq: "square m"
    and cell: "cholesky_cell m L i j = Inl e"
  shows "e = ValueError \<and> i = j \<and> m ! i ! i - (\<Sum>k<i. L ! i ! k * L ! i ! k) \<le> 0"
proof -
  have li: "length (m ! i) = length m" using square_nth [OF sq i] .
  have "0 < L ! j ! j" if "i \<noteq> j"
  proof -
    from that ji have "done_cell i j j j" by (simp add: done_cell_def)
    with inv ji i show ?thesis by (auto simp: chol_inv_def)
  qed
  with cell li ji i show ?thesis
    by (auto simp: cholesky_cell_def cholesky_sum_eq Let_def split: if_splits)
qed

lemma cholesky_row_inv:
  assumes "chol_inv m L i j" and "j \<le> Suc i" and "i < length m" and "square m"
  shows "case cholesky_row m L i [j..<Suc i] of
           Inr L' \<Rightarrow> chol_inv m L' i (Suc i)
         | Inl e \<Rightarrow> e = ValueError"
  using assms
proof (induction "Suc i - j" arbitrary: j L)
  case 0
  then have "j = Suc i" by simp
  with "0.prems" show ?case by simp
next
  case (Suc d)
  then have ji: "j \<le> i" by simp
  then have upt: "[j..<Suc i] = j # [Suc j..<Suc i]" by (simp add: upt_conv_Cons)
  show ?case
  proof (cases "cholesky_cell m L i j")
    case (Inl e)
    from cholesky_cell_error [OF Suc.prems(1) ji Suc.prems(3,4) Inl] Inl upt
    show ?thesis by simp
  next
    case (Inr L1)
    from cholesky_cell_step [OF Suc.prems(1) ji Suc.prems(3) Inr]
    have inv1: "chol_inv m L1 i (Suc j)" .
    have d: "d = Suc i - Suc j" using Suc.hyps(2) by simp
    from Suc.hyps(1) [OF d inv1 _ Suc.prems(3,4)] ji Inr upt
    show ?thesis by simp
  qed
qed

lemma chol_inv_next_row: "chol_inv m L i (Suc i) \<Longrightarrow> chol_inv m L (Suc i) 0"
proof -
  have "done_cell i (Suc i) p q = done_cell (Suc i) 0 p q" for p q
    by (auto simp: done_cell_def)
  then show "chol_inv m L i (Suc i) \<Longrightarrow> chol_inv m L (Suc i) 0"
    by (simp add: chol_inv_def)
qed

lemma cholesky_rows_inv:
  assumes "chol_inv m L i 0" and "i \<le> length m" and "square m"
  shows "case cholesky_rows m L [i..<length m] of
           Inr L' \<Rightarrow> chol_inv m L' (length m) 0
         | Inl e \<Rightarrow> e = ValueError"
  using assms
proof (induction "length m - i" arbitrary: i L)
  case 0
  then have "i = length m" by simp
  with "0.prems" show ?case by simp
next
  case (Suc d)
  then have i: "i < length m" by simp
  then have upt: "[i..<length m] = i # [Suc i..<length m]" by (simp add: upt_conv_Cons)
  note row = cholesky_row_inv [OF Suc.prems(1) _ i Suc.prems(3)]
  show ?case
  proof (cases "cholesky_row m L i [0..<Suc i]")
    case (Inl e)
    with row upt show ?thesis by simp
  next
    case (Inr L1)
    with row have "chol_inv m L1 i (Suc i)" by simp
    then have inv1: "chol_inv m L1 (Suc i) 0" by (rule chol_inv_next_row)
    have d: "d = length m - Suc i" using Suc.hyps(2) by simp
    from Suc.hyps(1) [OF d inv1 _ Suc.prems(3)] i Inr upt
    show ?thesis by simp
  qed
qed

lemma cholesky_inv:
  assumes "square m"
  shows "case cholesky m of
           Inr L \<Rightarrow> chol_inv m L (length m) 0
         | Inl e \<Rightarrow> e = ValueError"
  using cholesky_rows_inv [OF chol_inv_init _ assms]
  by (simp add: cholesky_def Let_def)

lemma chol_inv_final:
  assumes inv: "chol_inv m L (length m) 0" and i: "i < length m" and ji: "j \<le> i"
  shows "(\<Sum>k<length m. L ! i ! k * L ! j ! k) = m ! i ! j"
proof -
  let ?n = "length m"
  have j: "j < ?n" using i ji by simp
  have d: "done_cell ?n 0 i j" using i ji by (simp add: done_cell_def)
  have z: "L ! j ! k = 0" if "k < ?n" "j < k" for k
  proof -
    have "\<not> done_cell ?n 0 j k" using that by (simp add: done_cell_def)
    with inv j that show ?thesis by (auto simp: chol_inv_def)
  qed
  have "(\<Sum>k<?n. L ! i ! k * L ! j ! k) = (\<Sum>k<Suc j. L ! i ! k * L ! j ! k)"
    using j z by (intro sum.mono_neutral_right) auto
  also have "\<dots> = m ! i ! j" using inv i d by (auto simp: chol_inv_def)
  finally show ?thesis .
qed

lemma chol_lower_triangular:
  assumes "chol_inv m L (length m) 0" and "i < length m" and "j < length m" and "i < j"
  shows "L ! i ! j = 0"
proof -
  have "\<not> done_cell (length m) 0 i j" using assms(4) by (simp add: done_cell_def)
  with assms show ?thesis by (auto simp: chol_inv_def)
qed

lemma cholesky_reconstructs:
  assumes ch: "cholesky m = Inr L" and sq: "square m" and sym: "symmetric m"
    and i: "i < length m" and j: "j < length m"
  shows "(\<Sum>k<length m. L ! i ! k * L ! j ! k) = m ! i ! j"
proof -
  from cholesky_inv [OF sq] ch have inv: "chol_inv m L (length m) 0" by simp
  show ?thesis
  proof (cases "j \<le> i")
    case True
    from chol_inv_final [OF inv i True] show ?thesis .
  next
    case False
    then have ij: "i \<le> j" by simp
    have "(\<Sum>k<length m. L ! i ! k * L ! j ! k) = (\<Sum>k<length m. L ! j ! k * L ! i ! k)"
      by (simp add: mult.commute)
    also have "\<dots> = m ! j ! i" by (rule chol_inv_final [OF inv j ij])
    also have "\<dots> = m ! i ! j" using sym i j by (simp add: symmetric_def)
    finally show ?thesis .
  qed
qed

lemma index_map_fold:
  "fold (\<lambda>(i, t) m. m(t \<mapsto> i)) (List.enumerate k xs) m0 t = Some i \<Longrightarrow>
     m0 t = Some i \<or> (k \<le> i \<and> i < k + length xs)"
proof (induction xs arbitrary: k m0)
  case Nil
  then show ?case by simp
next
  case (Cons x xs)
  from Cons.prems have
    "fold (\<lambda>(i, t) m. m(t \<mapsto> i)) (List.enumerate (Suc k) xs) (m0(x \<mapsto> k)) t = Some i"
    by (simp add: fun_upd_def)
  from Cons.IH [OF this] show ?case by (auto split: if_splits)
qed

lemma index_map_bound: "index_map tests t = Some i \<Longrightarrow> i < length tests"
  using index_map_fold [of 0 tests Map.empty t i] by (simp add: index_map_def)

lemma unit_diagonal_fold:
  assumes "length c = n" "square c" "k \<le> n"
  shows "length (fold (\<lambda>i c. c[i := (c ! i)[i := 1]]) [0..<k] c) = n \<and>
         square (fold (\<lambda>i c. c[i := (c ! i)[i := 1]]) [0..<k] c) \<and>
         (\<forall>i<n. \<forall>j<n. fold (\<lambda>i c. c[i := (c ! i)[i := 1]]) [0..<k] c ! i ! j
            = (if i = j \<and> i < k then 1 else c ! i ! j))"
  using assms(3)
proof (induction k)
  case 0
  with assms show ?case by simp
next
  case (Suc k)
  let ?c = "fold (\<lambda>i c. c[i := (c ! i)[i := 1::real]]) [0..<k] c"
  from Suc have IH: "length ?c = n" "square ?c"
    "\<forall>i<n. \<forall>j<n. ?c ! i ! j = (if i = j \<and> i < k then 1 else c ! i ! j)"
    and k: "k < n" by simp_all
  have f: "fold (\<lambda>i c. c[i := (c ! i)[i := 1]]) [0..<Suc k] c = ?c[k := (?c ! k)[k := 1]]"
    by simp
  show ?case
    unfolding f
    using IH k set_cell_nth [OF IH(1,2) k k] set_cell_square [OF IH(2), of k k 1]
    by (auto simp: less_Suc_eq)
qed

lemma replicate_square: "square (replicate n (replicate n x))"
  by (simp add: square_def list_all_length)

lemma unit_diagonal_props:
  "length (unit_diagonal n) = n \<and> square (unit_diagonal n) \<and>
   (\<forall>i<n. \<forall>j<n. unit_diagonal n ! i ! j = (if i = j then 1 else 0))"
  using unit_diagonal_fold [of "replicate n (replicate n 0)" n n]
  by (simp add: unit_diagonal_def replicate_square)

lemma set_entry_props:
  assumes "length c = n" "square c" "i < n" "j < n"
  shows "length (set_entry c i j v) = n" "square (set_entry c i j v)"
    "\<And>p q. p < n \<Longrightarrow> set_entry c i j v ! p ! q = (if p = i \<and> q = j then v else c ! p ! q)"
  using assms set_cell_nth [OF assms] set_cell_square [OF assms(2)]
  by (simp_all add: set_entry_def)

lemma set_pairs_step:
  assumes "length c = n" "square c" "symmetric c" "i < n" "j < n"
  shows "length (set_entry (set_entry c i j v) j i v) = n \<and>
         square (set_entry (set_entry c i j v) j i v) \<and>
         symmetric (set_entry (set_entry c i j v) j i v)"
proof -
  let ?c1 = "set_entry c i j v"
  let ?c2 = "set_entry ?c1 j i v"
  note p1 = set_entry_props [OF assms(1,2,4,5), where v = v]
  note p2 = set_entry_props [OF p1(1,2) assms(5,4), where v = v]
  have e1: "?c1 ! p ! q = (if p = i \<and> q = j then v else c ! p ! q)" if "p < n" for p q
    by (rule p1(3) [OF that])
  have e2a: "?c2 ! p ! q = (if p = j \<and> q = i then v else ?c1 ! p ! q)" if "p < n" for p q
    by (rule p2(3) [OF that])
  have e2: "?c2 ! p ! q = (if (p = j \<and> q = i) \<or> (p = i \<and> q = j) then v else c ! p ! q)"
    if "p < n" for p q
    by (simp only: e2a [OF that] e1 [OF that] split: if_split) blast
  have "symmetric ?c2"
    unfolding symmetric_def
  proof (intro allI impI)
    fix p q
    assume "p < length ?c2" "q < length ?c2"
    then have pq: "p < n" "q < n" using p2(1) by simp_all
    with assms(1,3) have cs: "c ! p ! q = c ! q ! p" by (simp add: symmetric_def)
    show "?c2 ! p ! q = ?c2 ! q ! p"
      by (simp only: e2 [OF pq(1)] e2 [OF pq(2)] cs split: if_split) blast
  qed
  with p2(1,2) show ?thesis by blast
qed

lemma set_pairs_props:
  assumes "set_pairs idx c ps = Inr c'" and "length c = n" "square c" "symmetric c"
    and "\<And>t i. idx t = Some i \<Longrightarrow> i < n"
  shows "length c' = n \<and> square c' \<and> symmetric c'"
  using assms(1-4)
proof (induction ps arbitrary: c)
  case Nil
  then show ?case by simp
next
  case (Cons pr ps)
  obtain a b v where pr: "pr = (a, b, v)" by (cases pr) auto
  from Cons.prems(1) pr obtain i j where
    ij: "idx a = Some i" "idx b = Some j" and
    rest: "set_pairs idx (set_entry (set_entry c i j v) j i v) ps = Inr c'"
    by (auto split: option.splits)
  from ij assms(5) have i: "i < n" and j: "j < n" by auto
  from set_pairs_step [OF Cons.prems(2,3,4) i j, of v] Cons.IH [OF rest]
  show ?case by blast
qed

lemma correlation_matrix_props:
  assumes "correlation_matrix cc = Inr corr"
  shows "length corr = length (corr_tests cc) \<and> square corr \<and> symmetric corr"
proof -
  let ?n = "length (corr_tests cc)"
  have "symmetric (unit_diagonal ?n)"
    using unit_diagonal_props [of ?n] by (auto simp: symmetric_def)
  with set_pairs_props [OF assms [unfolded correlation_matrix_def], of ?n]
       unit_diagonal_props [of ?n] index_map_bound
  show ?thesis by blast
qed

lemma inflate_props:
  assumes "length corr = n" "square corr"
  shows "length (inflate n corr eps) = n" "square (inflate n corr eps)"
    "\<And>i j. i < n \<Longrightarrow> j < n \<Longrightarrow>
       inflate n corr eps ! i ! j = corr ! i ! j + (if i = j then eps else 0)"
  by (simp_all add: inflate_def square_def list_all_length)

lemma corr_eps_props:
  assumes "length corr = n" "square corr" "symmetric corr"
  shows "length (corr_eps n corr eps) = n \<and> square (corr_eps n corr eps) \<and>
         symmetric (corr_eps n corr eps)"
  using assms inflate_props [OF assms(1,2), where eps = eps]
  by (auto simp: corr_eps_def symmetric_def)


lemma try_epsilons_Some:
  "try_epsilons n corr es = Some L \<longleftrightarrow>
     (\<exists>pre eps post. es = pre @ eps # post \<and>
        (\<forall>e0\<in>set pre. \<exists>e. cholesky (corr_eps n corr e0) = Inl e) \<and>
        cholesky (corr_eps n corr eps) = Inr L)"
proof (induction es)
  case Nil
  then show ?case by simp
next
  case (Cons a es)
  show ?case
  proof (cases "cholesky (corr_eps n corr a)")
    case (Inr L1)
    have "(\<exists>pre eps post. a # es = pre @ eps # post \<and>
        (\<forall>e0\<in>set pre. \<exists>e. cholesky (corr_eps n corr e0) = Inl e) \<and>
        cholesky (corr_eps n corr eps) = Inr L) \<longleftrightarrow> L1 = L"
    proof
      assume "\<exists>pre eps post. a # es = pre @ eps # post \<and>
        (\<forall>e0\<in>set pre. \<exists>e. cholesky (corr_eps n corr e0) = Inl e) \<and>
        cholesky (corr_eps n corr eps) = Inr L"
      then obtain pre eps post where h: "a # es = pre @ eps # post"
        "\<forall>e0\<in>set pre. \<exists>e. cholesky (corr_eps n corr e0) = Inl e"
        "cholesky (corr_eps n corr eps) = Inr L" by blast
      show "L1 = L"
      proof (cases pre)
        case Nil
        with h Inr show ?thesis by simp
      next
        case (Cons b pre')
        with h(1) have "b = a" by simp
        with Cons h(2) Inr show ?thesis by auto
      qed
    next
      assume "L1 = L"
      with Inr have "a # es = [] @ a # es \<and>
        (\<forall>e0\<in>set []. \<exists>e. cholesky (corr_eps n corr e0) = Inl e) \<and>
        cholesky (corr_eps n corr a) = Inr L" by simp
      then show "\<exists>pre eps post. a # es = pre @ eps # post \<and>
        (\<forall>e0\<in>set pre. \<exists>e. cholesky (corr_eps n corr e0) = Inl e) \<and>
        cholesky (corr_eps n corr eps) = Inr L" by blast
    qed
    with Inr show ?thesis by simp
  next
    case (Inl e1)
    have "(\<exists>pre eps post. a # es = pre @ eps # post \<and>
        (\<forall>e0\<in>set pre. \<exists>e. cholesky (corr_eps n corr e0) = Inl e) \<and>
        cholesky (corr_eps n corr eps) = Inr L) \<longleftrightarrow>
          (\<exists>pre eps post. es = pre @ eps # post \<and>
        (\<forall>e0\<in>set pre. \<exists>e. cholesky (corr_eps n corr e0) = Inl e) \<and>
        cholesky (corr_eps n corr eps) = Inr L)"
    proof
      assume "\<exists>pre eps post. a # es = pre @ eps # post \<and>
        (\<forall>e0\<in>set pre. \<exists>e. cholesky (corr_eps n corr e0) = Inl e) \<and>
        cholesky (corr_eps n corr eps) = Inr L"
      then obtain pre eps post where h: "a # es = pre @ eps # post"
        "\<forall>e0\<in>set pre. \<exists>e. cholesky (corr_eps n corr e0) = Inl e"
        "cholesky (corr_eps n corr eps) = Inr L" by blast
      show "\<exists>pre eps post. es = pre @ eps # post \<and>
        (\<forall>e0\<in>set pre. \<exists>e. cholesky (corr_eps n corr e0) = Inl e) \<and>
        cholesky (corr_eps n corr eps) = Inr L"
      proof (cases pre)
        case Nil
        with h Inl show ?thesis by simp
      next
        case (Cons b pre')
        with h have "es = pre' @ eps # post"
          "\<forall>e0\<in>set pre'. \<exists>e. cholesky (corr_eps n corr e0) = Inl e" by simp_all
        with h(3) show ?thesis by blast
      qed
    next
      assume "\<exists>pre eps post. es = pre @ eps # post \<and>
        (\<forall>e0\<in>set pre. \<exists>e. cholesky (corr_eps n corr e0) = Inl e) \<and>
        cholesky (corr_eps n corr eps) = Inr L"
      then obtain pre eps post where h: "es = pre @ eps # post"
        "\<forall>e0\<in>set pre. \<exists>e. cholesky (corr_eps n corr e0) = Inl e"
        "cholesky (corr_eps n corr eps) = Inr L" by blast
      with Inl have "a # es = (a # pre) @ eps # post \<and>
        (\<forall>e0\<in>set (a # pre). \<exists>e. cholesky (corr_eps n corr e0) = Inl e) \<and>
        cholesky (corr_eps n corr eps) = Inr L" by simp
      then show "\<exists>pre eps post. a # es = pre @ eps # post \<and>
        (\<forall>e0\<in>set pre. \<exists>e. cholesky (corr_eps n corr e0) = Inl e) \<and>
        cholesky (corr_eps n corr eps) = Inr L" by blast
    qed
    with Inl Cons.IH show ?thesis by simp
  qed
qed

lemma set_pairs_entry:
  assumes "set_pairs idx c ps = Inr c'" and "length c = n" "square c"
    and "\<And>t i. idx t = Some i \<Longrightarrow> i < n" and "p < n" "q < n"
  shows "c' ! p ! q =
           fold (\<lambda>(a, b, v) e.
                  if (idx a = Some p \<and> idx b = Some q) \<or> (idx a = Some q \<and> idx b = Some p)
                  then v else e) ps (c ! p ! q)"
  using assms(1-3)
proof (induction ps arbitrary: c)
  case Nil
  then show ?case by simp
next
  case (Cons pr ps)
  obtain a b v where pr: "pr = (a, b, v)" by (cases pr) auto
  from Cons.prems(1) pr obtain i j where
    ij: "idx a = Some i" "idx b = Some j" and
    rest: "set_pairs idx (set_entry (set_entry c i j v) j i v) ps = Inr c'"
    by (auto split: option.splits)
  from ij assms(4) have i: "i < n" and j: "j < n" by auto
  note p1 = set_entry_props [OF Cons.prems(2,3) i j, where v = v]
  note p2 = set_entry_props [OF p1(1,2) j i, where v = v]
  have e: "set_entry (set_entry c i j v) j i v ! p ! q
             = (if (idx a = Some p \<and> idx b = Some q) \<or> (idx a = Some q \<and> idx b = Some p)
                then v else c ! p ! q)"
    by (simp only: p2(3) [OF assms(5)] p1(3) [OF assms(5)] ij option.inject split: if_split)
       blast
  from Cons.IH [OF rest p2(1,2)] show ?case
    by (simp only: e pr fold_simps case_prod_conv comp_apply)
qed

lemma correlation_matrix_entry:
  assumes "correlation_matrix cc = Inr corr" and "p < length (corr_tests cc)"
    and "q < length (corr_tests cc)"
  shows "corr ! p ! q =
           fold (\<lambda>(a, b, v) e.
                  if (index_map (corr_tests cc) a = Some p \<and> index_map (corr_tests cc) b = Some q)
                   \<or> (index_map (corr_tests cc) a = Some q \<and> index_map (corr_tests cc) b = Some p)
                  then v else e) (corr_pairs cc) (if p = q then 1 else 0)"
proof -
  let ?n = "length (corr_tests cc)"
  note u = unit_diagonal_props [of ?n]
  from u assms(2,3) have "unit_diagonal ?n ! p ! q = (if p = q then 1 else 0)" by blast
  with set_pairs_entry [OF assms(1) [unfolded correlation_matrix_def] _ _ index_map_bound assms(2,3)] u
  show ?thesis by simp
qed


subsection \<open>The two correlation specifications\<close>

lemmas corr_defs = build_correlation_def correlation_matrix_def index_map_def unit_diagonal_def
  set_entry_def epsilons_def corr_eps_def inflate_def cholesky_def cholesky_cell_def cholesky_sum_def

lemma upt2: "[0..<2] = [0, 1]" by (simp add: upt_rec)


lemma pair_matrix: "correlation_matrix pair_cc = Inr [[1, 3 / 5], [3 / 5, 1]]"
  by (simp add: pair_cc_def corr_defs upt2)

lemma sqrt_16_25: "sqrt (16 / 25) = 4 / 5"
  by (rule real_sqrt_unique) (simp_all add: power2_eq_square)

lemma pair_cholesky: "cholesky [[1, 3 / 5], [3 / 5, 1]] = Inr [[1, 0], [3 / 5, 4 / 5]]"
  by (simp add: cholesky_def cholesky_cell_def cholesky_sum_def upt2 sqrt_16_25)

lemma pair_build: "build_correlation pair_cc
   = Inr ([''VO2 max'', ''Grip Strength''], [[1, 0], [3 / 5, 4 / 5]])"
  by (simp add: build_correlation_def pair_matrix epsilons_def corr_eps_def pair_cholesky)
     (simp add: pair_cc_def)



subsection \<open>The correlation engine\<close>



text \<open>
  C5. When \<open>build_correlation\<close> returns the factor \<open>L\<close>, there is an epsilon of the
  list such that \<open>L\<close> times its transpose is, entry by entry, the correlation matrix
  with epsilon added on the diagonal: exactly so in real arithmetic, hence within
  \<open>1e-6\<close>. The correlation matrix starts from 1 on the diagonal and 0 elsewhere and
  takes, for each pair in turn, the pair's value at both mirrored positions; \<open>L\<close> is
  lower triangular.
\<close>

theorem cholesky_factor_reconstructs:
  assumes "build_correlation cc = Inr (ts, L)"
  shows "\<exists>corr eps.
           correlation_matrix cc = Inr corr \<and> eps \<in> set epsilons \<and> ts = corr_tests cc \<and>
           (\<forall>i<length ts. \<forall>j<length ts.
              corr ! i ! j =
                fold (\<lambda>(a, b, v) e.
                       if (index_map ts a = Some i \<and> index_map ts b = Some j)
                        \<or> (index_map ts a = Some j \<and> index_map ts b = Some i)
                       then v else e) (corr_pairs cc) (if i = j then 1 else 0)) \<and>
           (\<forall>i<length ts. \<forall>j<length ts.
              \<bar>(\<Sum>k<length ts. L ! i ! k * L ! j ! k)
                 - (corr ! i ! j + (if i = j then eps else 0))\<bar> \<le> 1 / 10 ^ 6 \<and>
              (\<Sum>k<length ts. L ! i ! k * L ! j ! k) = corr ! i ! j + (if i = j then eps else 0) \<and>
              (i < j \<longrightarrow> L ! i ! j = 0))"
proof -
  let ?n = "length (corr_tests cc)"
  from assms obtain corr where
    cm: "correlation_matrix cc = Inr corr" and
    te: "try_epsilons ?n corr epsilons = Some L" and
    ts: "ts = corr_tests cc"
    by (auto simp: build_correlation_def split: sum.splits option.splits)
  from te obtain pre eps post where dec: "epsilons = pre @ eps # post" and
    ch: "cholesky (corr_eps ?n corr eps) = Inr L"
    unfolding try_epsilons_Some by blast
  have "eps \<in> set (pre @ eps # post)" by simp
  then have eps: "eps \<in> set epsilons" by (simp only: dec)
  from correlation_matrix_props [OF cm] have
    cp: "length corr = ?n" "square corr" "symmetric corr" by simp_all
  from corr_eps_props [OF cp, of eps] have
    ep: "length (corr_eps ?n corr eps) = ?n" "square (corr_eps ?n corr eps)"
        "symmetric (corr_eps ?n corr eps)" by simp_all
  from eps have epos: "eps = 0 \<or> 0 < eps" by (auto simp: epsilons_def)
  have ent: "corr_eps ?n corr eps ! i ! j = corr ! i ! j + (if i = j then eps else 0)"
    if "i < ?n" "j < ?n" for i j
    using inflate_props(3) [OF cp(1,2) that, of eps] epos by (auto simp: corr_eps_def)
  from cholesky_inv [OF ep(2)] ch have inv:
    "chol_inv (corr_eps ?n corr eps) L (length (corr_eps ?n corr eps)) 0" by simp
  have rec: "(\<Sum>k<?n. L ! i ! k * L ! j ! k) = corr ! i ! j + (if i = j then eps else 0)"
    if "i < ?n" "j < ?n" for i j
    using cholesky_reconstructs [OF ch ep(2,3), of i j] that ent [OF that] by (simp add: ep(1))
  have low: "L ! i ! j = 0" if "i < ?n" "j < ?n" "i < j" for i j
    using chol_lower_triangular [OF inv, of i j] that by (simp add: ep(1))
  have entries: "corr ! i ! j =
                fold (\<lambda>(a, b, v) e.
                       if (index_map ts a = Some i \<and> index_map ts b = Some j)
                        \<or> (index_map ts a = Some j \<and> index_map ts b = Some i)
                       then v else e) (corr_pairs cc) (if i = j then 1 else 0)"
    if "i < ?n" "j < ?n" for i j
    unfolding ts by (rule correlation_matrix_entry [OF cm that])
  show ?thesis
    using cm eps ts entries rec low
    by (intro exI [of _ corr] exI [of _ eps]) simp
qed

theorem cholesky_factor_reconstructs_witness:
  "build_correlation pair_cc
     = Inr ([''VO2 max'', ''Grip Strength''], [[1, 0], [3 / 5, 4 / 5]]) \<and>
   (\<Sum>k<length [''VO2 max'', ''Grip Strength''].
       [[1, 0], [3 / 5, 4 / 5 :: real]] ! 1 ! k * [[1, 0], [3 / 5, 4 / 5]] ! 0 ! k) = 3 / 5"
proof -
  from cholesky_factor_reconstructs [OF pair_build] obtain corr eps where
    h1: "correlation_matrix pair_cc = Inr corr" and
    h2: "\<forall>i<length [''VO2 max'', ''Grip Strength'']. \<forall>j<length [''VO2 max'', ''Grip Strength''].
           \<bar>(\<Sum>k<length [''VO2 max'', ''Grip Strength''].
                [[1, 0], [3 / 5, 4 / 5]] ! i ! k * [[1, 0], [3 / 5, 4 / 5]] ! j ! k)
              - (corr ! i ! j + (if i = j then eps else 0))\<bar> \<le> 1 / 10 ^ 6 \<and>
           (\<Sum>k<length [''VO2 max'', ''Grip Strength''].
                [[1, 0], [3 / 5, 4 / 5]] ! i ! k * [[1, 0], [3 / 5, 4 / 5]] ! j ! k)
             = corr ! i ! j + (if i = j then eps else 0) \<and>
           (i < j \<longrightarrow> [[1, 0], [3 / 5, 4 / 5 :: real]] ! i ! j = 0)"
    by blast
  from h1 pair_matrix have c: "corr = [[1, 3 / 5], [3 / 5, 1]]" by simp
  from h2 [rule_format, of 1 0] have
    "(\<Sum>k<length [''VO2 max'', ''Grip Strength''].
        [[1, 0], [3 / 5, 4 / 5 :: real]] ! 1 ! k * [[1, 0], [3 / 5, 4 / 5]] ! 0 ! k)
       = corr ! 1 ! 0 + (if (1::nat) = 0 then eps else 0)"
    by simp
  with c pair_build show ?thesis by simp
qed

subsection \<open>The rates of one draw\<close>

lemma gauss_list_eq: "gauss_list n g = (stake n g, sdrop n g)"
  by (induction n arbitrary: g) (simp_all add: gauss_def)

lemma mix_rows_at:
  "mix_rows L z is = Inr xs \<Longrightarrow>
     length xs = length is \<and> (\<forall>k<length is. mix_row (L ! (is ! k)) z (is ! k) = Inr (xs ! k))"
proof (induction "is" arbitrary: xs)
  case Nil
  then show ?case by simp
next
  case (Cons i "is")
  from Cons.prems obtain s ys where
    s: "mix_row (L ! i) z i = Inr s" and ys: "mix_rows L z is = Inr ys" and xs: "xs = s # ys"
    by (auto split: sum.splits)
  from Cons.IH [OF ys] s xs show ?case
    by (auto simp: nth_Cons split: nat.splits)
qed

lemma sample_correlated_z_value:
  assumes "sample_correlated_z L g = Inr (zc, g1)"
  shows "g1 = sdrop (length L) g \<and> length zc = length L \<and>
         (\<forall>i<length L. zc ! i = (\<Sum>k<Suc i. L ! i ! k * g !! k))"
proof -
  from assms have g1: "g1 = sdrop (length L) g" and
    mr: "mix_rows L (stake (length L) g) [0..<length L] = Inr zc"
    by (auto simp: sample_correlated_z_def gauss_list_eq Let_def split: sum.splits)
  from mix_rows_at [OF mr] have len: "length zc = length L" and
    at: "\<forall>k<length L. mix_row (L ! k) (stake (length L) g) k = Inr (zc ! k)"
    by simp_all
  have "zc ! i = (\<Sum>k<Suc i. L ! i ! k * g !! k)" if i: "i < length L" for i
  proof -
    from at i have "mix_row (L ! i) (stake (length L) g) i = Inr (zc ! i)" by simp
    then have "zc ! i = (\<Sum>k<Suc i. L ! i ! k * stake (length L) g ! k)"
      by (auto simp: mix_row_def fold_add_sum split: if_splits)
    also have "\<dots> = (\<Sum>k<Suc i. L ! i ! k * g !! k)"
      using i by (intro sum.cong) auto
    finally show ?thesis .
  qed
  with g1 len show ?thesis by simp
qed

lemma sample_rates_trace:
  "sample_rates cfg zm tests rate rp g = Inr (rate', rp', g') \<Longrightarrow>
     g' = sdrop (length (filter (\<lambda>t. zm t = None) tests)) g \<and>
     (\<forall>k<length tests. tests ! k \<notin> set (drop (Suc k) tests) \<longrightarrow>
        (\<exists>mu cv r.
           base_rate_per_decade cfg (tests ! k) = Some mu \<and>
           rate_uncertainty_cv cfg (tests ! k) = Some cv \<and>
           rate' (tests ! k) = Some r \<and>
           sample_rate (tests ! k) mu cv (tests ! k \<in> set (rate_lognormal cfg)) (zm (tests ! k))
               (sdrop (length (filter (\<lambda>t. zm t = None) (take k tests))) g)
             = Inr (r, sdrop (length (filter (\<lambda>t. zm t = None) (take (Suc k) tests))) g)))"
proof (induction tests arbitrary: rate rp g)
  case Nil
  then show ?case by simp
next
  case (Cons t ts)
  from Cons.prems obtain mu cv r g1 where
    mu: "base_rate_per_decade cfg t = Some mu" and
    cv: "rate_uncertainty_cv cfg t = Some cv" and
    sr: "sample_rate t mu cv (t \<in> set (rate_lognormal cfg)) (zm t) g = Inr (r, g1)" and
    rest: "sample_rates cfg zm ts (rate(t \<mapsto> r))
             (rp(t \<mapsto> derive_rate_post (post_rate_per_decade cfg t) r mu)) g1
           = Inr (rate', rp', g')"
    by (auto split: option.splits sum.splits prod.splits)
  from sample_rate_value [OF sr] have
    g1: "g1 = sdrop (length (filter (\<lambda>t. zm t = None) [t])) g"
    by (auto split: option.splits)
  note IH = Cons.IH [OF rest]
  have a: "g' = sdrop (length (filter (\<lambda>t. zm t = None) (t # ts))) g"
    using IH g1 by (simp add: add.commute)
  have b: "\<exists>mu cv r.
           base_rate_per_decade cfg ((t # ts) ! k) = Some mu \<and>
           rate_uncertainty_cv cfg ((t # ts) ! k) = Some cv \<and>
           rate' ((t # ts) ! k) = Some r \<and>
           sample_rate ((t # ts) ! k) mu cv ((t # ts) ! k \<in> set (rate_lognormal cfg))
               (zm ((t # ts) ! k))
               (sdrop (length (filter (\<lambda>t. zm t = None) (take k (t # ts)))) g)
             = Inr (r, sdrop (length (filter (\<lambda>t. zm t = None) (take (Suc k) (t # ts)))) g)"
    if k: "k < length (t # ts)" and last: "(t # ts) ! k \<notin> set (drop (Suc k) (t # ts))" for k
  proof (cases k)
    case 0
    with last have "t \<notin> set ts" by simp
    from sample_rates_other [OF rest this] have "rate' t = Some r" by simp
    with 0 mu cv sr g1 show ?thesis by simp
  next
    case (Suc k')
    with k last have k': "k' < length ts" "ts ! k' \<notin> set (drop (Suc k') ts)" by simp_all
    from IH k' obtain mu' cv' r' where
      h: "base_rate_per_decade cfg (ts ! k') = Some mu'"
         "rate_uncertainty_cv cfg (ts ! k') = Some cv'"
         "rate' (ts ! k') = Some r'"
         "sample_rate (ts ! k') mu' cv' (ts ! k' \<in> set (rate_lognormal cfg)) (zm (ts ! k'))
               (sdrop (length (filter (\<lambda>t. zm t = None) (take k' ts))) g1)
             = Inr (r', sdrop (length (filter (\<lambda>t. zm t = None) (take (Suc k') ts))) g1)"
      by blast
    from h(4) have "sample_rate (ts ! k') mu' cv' (ts ! k' \<in> set (rate_lognormal cfg)) (zm (ts ! k'))
               (sdrop (length (filter (\<lambda>t. zm t = None) (take (Suc k') (t # ts)))) g)
             = Inr (r', sdrop (length (filter (\<lambda>t. zm t = None) (take (Suc (Suc k')) (t # ts)))) g)"
      unfolding g1 by (cases "zm t") (simp_all add: add.commute)
    with h(1-3) Suc show ?thesis by simp
  qed
  from a b show ?case by blast
qed

lemma fold_z_map_last:
  "k \<le> length ctests \<Longrightarrow> t \<in> set (take k ctests) \<Longrightarrow>
     \<exists>i<k. ctests ! i = t \<and> t \<notin> set (drop (Suc i) (take k ctests)) \<and>
       fold (\<lambda>i m. m(ctests ! i \<mapsto> zc ! i)) [0..<k] Map.empty t = Some (zc ! i)"
proof (induction k)
  case 0
  then show ?case by simp
next
  case (Suc k)
  from Suc.prems have k: "k < length ctests" by simp
  have tk: "take (Suc k) ctests = take k ctests @ [ctests ! k]"
    using k by (simp add: take_Suc_conv_app_nth)
  show ?case
  proof (cases "ctests ! k = t")
    case True
    have "drop (Suc k) (take (Suc k) ctests) = []" by simp
    with True show ?thesis
      by (intro exI [of _ k]) simp
  next
    case False
    with Suc.prems tk have "t \<in> set (take k ctests)" by simp
    from Suc.IH [OF less_imp_le [OF k] this] obtain i where
      i: "i < k" "ctests ! i = t" "t \<notin> set (drop (Suc i) (take k ctests))"
         "fold (\<lambda>i m. m(ctests ! i \<mapsto> zc ! i)) [0..<k] Map.empty t = Some (zc ! i)"
      by blast
    from i(1) k have "drop (Suc i) (take (Suc k) ctests)
        = drop (Suc i) (take k ctests) @ [ctests ! k]"
      unfolding tk by simp
    moreover have "fold (\<lambda>i m. m(ctests ! i \<mapsto> zc ! i)) [0..<Suc k] Map.empty t
        = fold (\<lambda>i m. m(ctests ! i \<mapsto> zc ! i)) [0..<k] Map.empty t"
      using False by simp
    ultimately show ?thesis
      using i by (intro exI [of _ i]) (simp only: less_SucI simp_thms not_False_eq_True set_append
          Un_iff set_simps insert_iff empty_iff False [symmetric])
  qed
qed

lemma z_map_of_last:
  assumes "z_map_of ctests zc = Inr zm" and "t \<in> set ctests"
  shows "\<exists>i<length ctests. ctests ! i = t \<and> t \<notin> set (drop (Suc i) ctests) \<and>
           zm t = Some (zc ! i)"
proof -
  from assms have zm: "zm = fold (\<lambda>i m. m(ctests ! i \<mapsto> zc ! i)) [0..<length ctests] Map.empty"
    by (auto simp: z_map_of_def split: if_splits)
  show ?thesis
    using fold_z_map_last [of "length ctests" ctests t zc] assms(2) unfolding zm by simp
qed

lemma last_index:
  "t \<in> set xs \<Longrightarrow> \<exists>k<length xs. xs ! k = t \<and> t \<notin> set (drop (Suc k) xs)"
proof -
  assume "t \<in> set xs"
  from split_list_last [OF this] obtain ys zs where xs: "xs = ys @ t # zs" and t: "t \<notin> set zs"
    by blast
  show ?thesis
    unfolding xs using t by (intro exI [of _ "length ys"]) simp
qed

text \<open>
  The number of uncorrelated tests before a position grows strictly from one
  uncorrelated test to the next: no two of them read the same draw of the generator.
\<close>

lemma filter_take_mono:
  "k < k' \<Longrightarrow> k' \<le> length xs \<Longrightarrow> P (xs ! k) \<Longrightarrow>
     length (filter P (take k xs)) < length (filter P (take k' xs))"
proof -
  assume a: "k < k'" "k' \<le> length xs" "P (xs ! k)"
  from id_take_nth_drop [of k "take k' xs"] a
  have e: "take k' xs = take k xs @ xs ! k # drop (Suc k) (take k' xs)"
    by (simp add: min_def)
  show ?thesis
    by (subst e) (simp add: a(3))
qed

lemma simulate_draw_steps:
  assumes "simulate_draw cl cfg ctests corr_L scenario (sums5, sums10, g) = Inr st'"
  shows "\<exists>z_corr g1 zm rate rp g2 true0 g3 s5 g4 s10 g5.
           sample_correlated_z corr_L g = Inr (z_corr, g1) \<and>
           z_map_of ctests z_corr = Inr zm \<and>
           sample_rates cfg zm (tests_order cfg) Map.empty Map.empty g1 = Inr (rate, rp, g2) \<and>
           infer_all cfg (data cl) (tests_order cfg) Map.empty g2 = Inr (true0, g3) \<and>
           project_all cfg (age cl) scenario 5 rate rp true0 (tests_order cfg) sums5 g3
             = Inr (s5, g4) \<and>
           project_all cfg (age cl) scenario 10 rate rp true0 (tests_order cfg) sums10 g4
             = Inr (s10, g5) \<and>
           st' = (s5, s10, g5)"
  using assms
  by (auto simp: simulate_draw_def Let_def split: sum.splits prod.splits)

lemma one_plus_exp_pos: "0 < 1 + exp (x::real)"
  by (simp add: add_pos_pos)

lemma affine_exp_not_neg: "0 \<le> a \<Longrightarrow> 0 \<le> b \<Longrightarrow> \<not> a + b * exp (x::real) < 0"
  by (simp add: not_less add_nonneg_nonneg)

lemma rates_draw:
  "simulate_draw rates_client rates_cfg [''VO2 max''] [[1]] ''decline''
     (zero_sums [''VO2 max'', ''ApoB''], zero_sums [''VO2 max'', ''ApoB''],
      1 / 2 ## 2 ## sconst 0)
   = Inr ((zero_sums [''VO2 max'', ''ApoB''])
            (''VO2 max'' \<mapsto> 40 * (189 / 200) powr (1 / 2),
             ''ApoB'' \<mapsto> 100 * (1 + exp (ln (1 / 20) + sqrt (ln (26 / 25)) * 2)) powr (1 / 2)),
          (zero_sums [''VO2 max'', ''ApoB''])
            (''VO2 max'' \<mapsto> 189 / 5,
             ''ApoB'' \<mapsto> 100 + 100 * exp (ln (1 / 20) + sqrt (ln (26 / 25)) * 2)),
          sconst 0)"
  by (simp add: run_defs mix_row_def Let_def affine_exp_not_neg rates_cfg_def rates_client_def
        lognormal_sigma_from_cv_def one_plus_exp_pos)

text \<open>
  C6. In every draw that completes, for every test \<open>t\<close> of \<open>tests_order\<close>, with \<open>k\<close>
  its last position there, base rate \<open>mu\<close> and rate uncertainty \<open>cv\<close>, the rate that
  the two projection loops of the draw use is \<open>exp (ln mu + sqrt (ln (1 + cv\<^sup>2)) * z)\<close>
  when the test is in \<open>rate_lognormal\<close>, and \<open>mu + \<bar>mu\<bar> * cv * z\<close> clamped below at 0
  otherwise. When the test is one of the correlation tests, \<open>z\<close> is the entry of the
  correlated shock vector at the test's last position among them, and entry \<open>i\<close> of
  that vector mixes the first \<open>i + 1\<close> draws of the generator with row \<open>i\<close> of the
  factor. Otherwise \<open>z\<close> is a draw of its own: the draw of the generator at position
  \<open>length corr_L\<close>, past the draws of the correlated shocks, plus the number of
  uncorrelated tests before position \<open>k\<close>. The rate loop leaves the generator past
  all of these draws, where the de-noising loop goes on.
\<close>

theorem sampled_rate_formula:
  assumes "simulate_draw cl cfg ctests corr_L scenario (sums5, sums10, g) = Inr st'"
    and "t \<in> set (tests_order cfg)"
  shows "\<exists>z_corr zm rate rp true0 g3 k mu cv z.
           sample_correlated_z corr_L g = Inr (z_corr, sdrop (length corr_L) g) \<and>
           length z_corr = length corr_L \<and>
           (\<forall>i<length corr_L. z_corr ! i = (\<Sum>j<Suc i. corr_L ! i ! j * g !! j)) \<and>
           z_map_of ctests z_corr = Inr zm \<and>
           sample_rates cfg zm (tests_order cfg) Map.empty Map.empty (sdrop (length corr_L) g)
             = Inr (rate, rp,
                    sdrop (length corr_L
                           + length (filter (\<lambda>u. u \<notin> set ctests) (tests_order cfg))) g) \<and>
           infer_all cfg (data cl) (tests_order cfg) Map.empty
               (sdrop (length corr_L
                       + length (filter (\<lambda>u. u \<notin> set ctests) (tests_order cfg))) g)
             = Inr (true0, g3) \<and>
           (\<exists>s5 g4 s10 g5.
              project_all cfg (age cl) scenario 5 rate rp true0 (tests_order cfg) sums5 g3
                = Inr (s5, g4) \<and>
              project_all cfg (age cl) scenario 10 rate rp true0 (tests_order cfg) sums10 g4
                = Inr (s10, g5) \<and>
              st' = (s5, s10, g5)) \<and>
           k < length (tests_order cfg) \<and> tests_order cfg ! k = t \<and>
           t \<notin> set (drop (Suc k) (tests_order cfg)) \<and>
           base_rate_per_decade cfg t = Some mu \<and> rate_uncertainty_cv cfg t = Some cv \<and>
           (t \<in> set ctests \<longrightarrow>
              (\<exists>i<length ctests. ctests ! i = t \<and> t \<notin> set (drop (Suc i) ctests) \<and>
                 z = z_corr ! i)) \<and>
           (t \<notin> set ctests \<longrightarrow>
              z = g !! (length corr_L
                        + length (filter (\<lambda>u. u \<notin> set ctests) (take k (tests_order cfg))))) \<and>
           rate t = Some (if t \<in> set (rate_lognormal cfg)
                          then exp (ln mu + sqrt (ln (1 + cv\<^sup>2)) * z)
                          else max 0 (mu + \<bar>mu\<bar> * cv * z))"
proof -
  from simulate_draw_steps [OF assms(1)] obtain z_corr g1 zm rate rp g2 true0 g3 s5 g4 s10 g5
    where st:
      "sample_correlated_z corr_L g = Inr (z_corr, g1)"
      "z_map_of ctests z_corr = Inr zm"
      "sample_rates cfg zm (tests_order cfg) Map.empty Map.empty g1 = Inr (rate, rp, g2)"
      "infer_all cfg (data cl) (tests_order cfg) Map.empty g2 = Inr (true0, g3)"
      "project_all cfg (age cl) scenario 5 rate rp true0 (tests_order cfg) sums5 g3
         = Inr (s5, g4)"
      "project_all cfg (age cl) scenario 10 rate rp true0 (tests_order cfg) sums10 g4
         = Inr (s10, g5)"
      "st' = (s5, s10, g5)"
    by blast
  from sample_correlated_z_value [OF st(1)] have
    g1: "g1 = sdrop (length corr_L) g" and len: "length z_corr = length corr_L" and
    zc: "\<forall>i<length corr_L. z_corr ! i = (\<Sum>j<Suc i. corr_L ! i ! j * g !! j)"
    by simp_all
  have zm: "zm u = None \<longleftrightarrow> u \<notin> set ctests" for u
    using z_map_of_at [OF st(2), of u] by auto
  then have flt: "filter (\<lambda>u. zm u = None) xs = filter (\<lambda>u. u \<notin> set ctests) xs" for xs
    by simp
  from last_index [OF assms(2)] obtain k where
    k: "k < length (tests_order cfg)" "tests_order cfg ! k = t"
       "t \<notin> set (drop (Suc k) (tests_order cfg))"
    by blast
  note tr = sample_rates_trace [OF st(3)]
  from tr have g2: "g2 = sdrop (length corr_L
      + length (filter (\<lambda>u. u \<notin> set ctests) (tests_order cfg))) g"
    unfolding g1 flt by (simp add: sdrop_add)
  from tr k obtain mu cv r where
    h: "base_rate_per_decade cfg t = Some mu" "rate_uncertainty_cv cfg t = Some cv"
       "rate t = Some r"
       "sample_rate t mu cv (t \<in> set (rate_lognormal cfg)) (zm t)
            (sdrop (length (filter (\<lambda>u. zm u = None) (take k (tests_order cfg)))) g1)
          = Inr (r, sdrop (length (filter (\<lambda>u. zm u = None) (take (Suc k) (tests_order cfg)))) g1)"
    by blast
  define z where "z = (case zm t of Some z0 \<Rightarrow> z0
      | None \<Rightarrow> g !! (length corr_L
                      + length (filter (\<lambda>u. u \<notin> set ctests) (take k (tests_order cfg)))))"
  from sample_rate_value [OF h(4)] have
    r: "r = (if t \<in> set (rate_lognormal cfg)
             then exp (ln mu + sqrt (ln (1 + cv\<^sup>2)) * z)
             else max 0 (mu + \<bar>mu\<bar> * cv * z))"
    unfolding z_def g1 flt by (simp add: sdrop_add sdrop_simps split: option.splits)
  have zin: "\<exists>i<length ctests. ctests ! i = t \<and> t \<notin> set (drop (Suc i) ctests) \<and> z = z_corr ! i"
    if "t \<in> set ctests"
    using z_map_of_last [OF st(2) that] unfolding z_def by auto
  have zout: "z = g !! (length corr_L
      + length (filter (\<lambda>u. u \<notin> set ctests) (take k (tests_order cfg))))"
    if "t \<notin> set ctests"
    using that zm [of t] unfolding z_def by simp
  have p: "\<exists>s5 g4 s10 g5.
              project_all cfg (age cl) scenario 5 rate rp true0 (tests_order cfg) sums5 g3
                = Inr (s5, g4) \<and>
              project_all cfg (age cl) scenario 10 rate rp true0 (tests_order cfg) sums10 g4
                = Inr (s10, g5) \<and>
              st' = (s5, s10, g5)"
    using st(5-7) by blast
  show ?thesis
    apply (rule exI [of _ z_corr], rule exI [of _ zm], rule exI [of _ rate], rule exI [of _ rp],
        rule exI [of _ true0], rule exI [of _ g3], rule exI [of _ k], rule exI [of _ mu],
        rule exI [of _ cv], rule exI [of _ z])
    apply (intro conjI)
    using st(1) g1 apply simp
    using len apply simp
    using zc apply simp
    using st(2) apply simp
    using st(3) g1 g2 apply simp
    using st(4) g2 apply simp
    using p apply simp
    using k(1) apply simp
    using k(2) apply simp
    using k(3) apply simp
    using h(1) apply simp
    using h(2) apply simp
    using zin apply blast
    using zout apply blast
    using h(3) r apply simp
    done
qed

theorem sampled_rate_formula_witness:
  "simulate_draw rates_client rates_cfg [''VO2 max''] [[1]] ''decline''
     (zero_sums [''VO2 max'', ''ApoB''], zero_sums [''VO2 max'', ''ApoB''],
      1 / 2 ## 2 ## sconst 0)
   = Inr ((zero_sums [''VO2 max'', ''ApoB''])
            (''VO2 max'' \<mapsto> 40 * (189 / 200) powr (1 / 2),
             ''ApoB'' \<mapsto> 100 * (1 + exp (ln (1 / 20) + sqrt (ln (26 / 25)) * 2)) powr (1 / 2)),
          (zero_sums [''VO2 max'', ''ApoB''])
            (''VO2 max'' \<mapsto> 189 / 5,
             ''ApoB'' \<mapsto> 100 + 100 * exp (ln (1 / 20) + sqrt (ln (26 / 25)) * 2)),
          sconst 0) \<and>
   (\<exists>rate rp g2.
      sample_rates rates_cfg [''VO2 max'' \<mapsto> 1 / 2] [''VO2 max'', ''ApoB''] Map.empty Map.empty
          (2 ## sconst 0) = Inr (rate, rp, g2) \<and>
      g2 = sconst 0 \<and>
      rate ''ApoB'' = Some (exp (ln (1 / 20) + sqrt (ln (1 + (1 / 5)\<^sup>2)) * 2))) \<and>
   (\<exists>rate rp g2.
      sample_rates rates_cfg [''VO2 max'' \<mapsto> 1 / 2] [''VO2 max'', ''ApoB''] Map.empty Map.empty
          (2 ## sconst 0) = Inr (rate, rp, g2) \<and>
      rate ''VO2 max'' = Some (max 0 (1 / 20 + \<bar>1 / 20\<bar> * (1 / 5) * (1 / 2))))"
proof -
  let ?g = "1 / 2 ## 2 ## sconst (0::real)"
  note h = rates_draw
  have sc: "sample_correlated_z [[1]] ?g = Inr (zc, g1) \<longleftrightarrow> zc = [1 / 2] \<and> g1 = 2 ## sconst 0"
    for zc g1
    by (auto simp: sample_correlated_z_def mix_row_def gauss_def)
  have zm: "z_map_of [''VO2 max''] [1 / 2 :: real] = Inr m \<longleftrightarrow> m = [''VO2 max'' \<mapsto> 1 / 2]" for m
    by (auto simp: z_map_of_def)
  have a: "\<exists>rate rp g2.
      sample_rates rates_cfg [''VO2 max'' \<mapsto> 1 / 2] [''VO2 max'', ''ApoB''] Map.empty Map.empty
          (2 ## sconst 0) = Inr (rate, rp, g2) \<and>
      g2 = sconst 0 \<and>
      rate ''ApoB'' = Some (exp (ln (1 / 20) + sqrt (ln (1 + (1 / 5)\<^sup>2)) * 2))"
  proof -
    from sampled_rate_formula [OF h, of "''ApoB''"] obtain z_corr zm rate rp k mu cv z where
      c: "sample_correlated_z [[1]] ?g = Inr (z_corr, sdrop (length [[1::real]]) ?g)"
         "z_map_of [''VO2 max''] z_corr = Inr zm"
         "sample_rates rates_cfg zm (tests_order rates_cfg) Map.empty Map.empty
              (sdrop (length [[1::real]]) ?g)
            = Inr (rate, rp,
                   sdrop (length [[1::real]]
                          + length (filter (\<lambda>u. u \<notin> set [''VO2 max''])
                                      (tests_order rates_cfg))) ?g)"
         "k < length (tests_order rates_cfg)" "tests_order rates_cfg ! k = ''ApoB''"
         "base_rate_per_decade rates_cfg ''ApoB'' = Some mu"
         "rate_uncertainty_cv rates_cfg ''ApoB'' = Some cv"
         "''ApoB'' \<notin> set [''VO2 max''] \<longrightarrow>
            z = ?g !! (length [[1::real]]
                       + length (filter (\<lambda>u. u \<notin> set [''VO2 max''])
                                   (take k (tests_order rates_cfg))))"
         "rate ''ApoB'' = Some (if ''ApoB'' \<in> set (rate_lognormal rates_cfg)
                          then exp (ln mu + sqrt (ln (1 + cv\<^sup>2)) * z)
                          else max 0 (mu + \<bar>mu\<bar> * cv * z))"
      by (auto simp: rates_cfg_def)
    from c(4,5) have k: "k = 1"
      by (cases k) (simp_all add: rates_cfg_def)
    from c(1) have zc: "z_corr = [1 / 2]" by (simp add: sc)
    from c(2) have zmv: "zm = [''VO2 max'' \<mapsto> 1 / 2]" by (simp add: zc zm)
    from c(6,7) have mc: "mu = 1 / 20" "cv = 1 / 5" by (simp_all add: rates_cfg_def)
    from c(8) have z: "z = 2" by (simp add: k rates_cfg_def)
    from c(3) have "sample_rates rates_cfg [''VO2 max'' \<mapsto> 1 / 2] [''VO2 max'', ''ApoB'']
          Map.empty Map.empty (2 ## sconst 0) = Inr (rate, rp, sconst 0)"
      by (simp add: zmv rates_cfg_def)
    moreover from c(9) have "rate ''ApoB'' = Some (exp (ln (1 / 20) + sqrt (ln (1 + (1 / 5)\<^sup>2)) * 2))"
      by (simp add: mc z rates_cfg_def)
    ultimately show ?thesis by blast
  qed
  have b: "\<exists>rate rp g2.
      sample_rates rates_cfg [''VO2 max'' \<mapsto> 1 / 2] [''VO2 max'', ''ApoB''] Map.empty Map.empty
          (2 ## sconst 0) = Inr (rate, rp, g2) \<and>
      rate ''VO2 max'' = Some (max 0 (1 / 20 + \<bar>1 / 20\<bar> * (1 / 5) * (1 / 2)))"
  proof -
    from sampled_rate_formula [OF h, of "''VO2 max''"] obtain z_corr zm rate rp g2 mu cv z where
      c: "sample_correlated_z [[1]] ?g = Inr (z_corr, sdrop (length [[1::real]]) ?g)"
         "z_map_of [''VO2 max''] z_corr = Inr zm"
         "sample_rates rates_cfg zm (tests_order rates_cfg) Map.empty Map.empty
              (sdrop (length [[1::real]]) ?g) = Inr (rate, rp, g2)"
         "base_rate_per_decade rates_cfg ''VO2 max'' = Some mu"
         "rate_uncertainty_cv rates_cfg ''VO2 max'' = Some cv"
         "''VO2 max'' \<in> set [''VO2 max''] \<longrightarrow>
            (\<exists>i<length [''VO2 max'']. z = z_corr ! i)"
         "rate ''VO2 max'' = Some (if ''VO2 max'' \<in> set (rate_lognormal rates_cfg)
                          then exp (ln mu + sqrt (ln (1 + cv\<^sup>2)) * z)
                          else max 0 (mu + \<bar>mu\<bar> * cv * z))"
      by (auto simp: rates_cfg_def)
    from c(1) have zc: "z_corr = [1 / 2]" by (simp add: sc)
    from c(2) have zmv: "zm = [''VO2 max'' \<mapsto> 1 / 2]" by (simp add: zc zm)
    from c(4,5) have mc: "mu = 1 / 20" "cv = 1 / 5" by (simp_all add: rates_cfg_def)
    from c(6) have z: "z = 1 / 2" by (simp add: zc)
    from c(3) have "sample_rates rates_cfg [''VO2 max'' \<mapsto> 1 / 2] [''VO2 max'', ''ApoB'']
          Map.empty Map.empty (2 ## sconst 0) = Inr (rate, rp, g2)"
      by (simp add: zmv rates_cfg_def)
    moreover from c(7) have "rate ''VO2 max'' = Some (max 0 (1 / 20 + \<bar>1 / 20\<bar> * (1 / 5) * (1 / 2)))"
      by (simp add: mc z rates_cfg_def)
    ultimately show ?thesis by blast
  qed
  from h a b show ?thesis by (intro conjI)
qed

subsection \<open>The improvement scenario\<close>

lemma accel_improvement_draw:
  "simulate_draw vo2_client accel_cfg [] [] ''improvement''
     (zero_sums [''VO2 max''], zero_sums [''VO2 max''], g)
     = Inr ([''VO2 max'' \<mapsto> 4007 / 100], [''VO2 max'' \<mapsto> 2001 / 50],
            stl (stl (stl (stl (stl (stl g))))))"
  by (simp add: run_defs accel_cfg_def vo2_cfg_def vo2_client_def vo2_improvement_def fun_eq_iff)

lemma project_all_once:
  "project_all cfg ag sc years rate rp true0 tests acc g = Inr (acc', g') \<Longrightarrow>
   count_list tests t = 1 \<Longrightarrow>
     \<exists>obs s g1 g2. project cfg ag sc years rate rp true0 t g1 = Inr (obs, g2) \<and>
                   acc t = Some s \<and> acc' t = Some (s + obs)"
proof (induction tests arbitrary: acc g)
  case Nil
  then show ?case by simp
next
  case (Cons test tests)
  from Cons.prems(1) obtain obs g1 s where
    p: "project cfg ag sc years rate rp true0 test g = Inr (obs, g1)" and
    s: "acc test = Some s" and
    rest: "project_all cfg ag sc years rate rp true0 tests (acc(test \<mapsto> s + obs)) g1 = Inr (acc', g')"
    by (auto split: sum.splits prod.splits option.splits)
  show ?case
  proof (cases "t = test")
    case True
    with Cons.prems(2) have "count_list tests t = 0" by simp
    then have "t \<notin> set tests" by (simp add: count_list_0_iff)
    from project_all_other [OF rest this] True p s show ?thesis by auto
  next
    case False
    with Cons.prems(2) have "count_list tests t = 1" by simp
    from Cons.IH [OF rest this] False show ?thesis by auto
  qed
qed

text \<open>
  C3. Under the improvement scenario with horizon \<open>H\<close>, the projector draws the
  improvement fraction and applies it to the de-noised baseline first. The improved
  value then declines from the client's age plus 1 (a missing age counts as 0) over
  the \<open>H - 1\<close> years that are left: for \<open>years1\<close> years at the base rate, up to the
  acceleration age of the test, and for the other \<open>H - 1 - years1\<close> years at the post
  rate; the practice effect and the measurement noise come last. In every draw of the
  improvement scenario that completes, the observations added to the year-5 and
  year-10 sums of a test listed once are those of the projector for \<open>H = 5\<close> and
  \<open>H = 10\<close>, at the client's age and with the rates and the baseline of that draw.
\<close>

theorem improvement_ages_remaining_years:
  "(true0 test = Some v \<and> rate test = Some r \<and> rate_post test = Some po \<longrightarrow>
      project cfg ag ''improvement'' H rate rate_post true0 test g =
        (case sample_improvement_fraction test ag (improvement cfg) g of
           Inl e \<Rightarrow> Inl e
         | Inr (imp, g1) \<Rightarrow>
             let start = (case ag of None \<Rightarrow> 0 | Some a \<Rightarrow> a) + 1;
                 left = H - 1;
                 years1 = (case accelerate_from_age cfg test of
                             None \<Rightarrow> left
                           | Some A \<Rightarrow> if start < A then min left (A - start) else 0);
                 years2 = left - years1;
                 hib = test \<in> set (higher_is_better cfg);
                 ua = test \<in> absolute_decline cfg
             in case apply_segment ua hib (improve cfg test v imp) r years1 of
                  Inl e \<Rightarrow> Inl e
                | Inr v1 \<Rightarrow>
                    (case apply_segment ua hib v1 (case po of Some p \<Rightarrow> p | None \<Rightarrow> r) years2 of
                       Inl e \<Rightarrow> Inl e
                     | Inr v2 \<Rightarrow>
                         apply_measurement_noise test (practice cfg H test v2)
                           (measurement_cv cfg) (set (measurement_lognormal cfg))
                           (allow_negative cfg) g1))) \<and>
   (simulate_draw cl cfg ctests corr_L ''improvement'' (sums5, sums10, g0)
        = Inr (sums5', sums10', g') \<and>
    count_list (tests_order cfg) test = 1 \<longrightarrow>
      (\<exists>z_map rate rate_post true0 ga gb gc v r po o5 o10 x5 x10 g5 g6 g7 g8.
         sample_rates cfg z_map (tests_order cfg) Map.empty Map.empty ga
           = Inr (rate, rate_post, gb) \<and>
         infer_all cfg (data cl) (tests_order cfg) Map.empty gb = Inr (true0, gc) \<and>
         true0 test = Some v \<and> rate test = Some r \<and> rate_post test = Some po \<and>
         project cfg (age cl) ''improvement'' 5 rate rate_post true0 test g5 = Inr (o5, g6) \<and>
         project cfg (age cl) ''improvement'' 10 rate rate_post true0 test g7 = Inr (o10, g8) \<and>
         sums5 test = Some x5 \<and> sums5' test = Some (x5 + o5) \<and>
         sums10 test = Some x10 \<and> sums10' test = Some (x10 + o10)))"
proof (intro conjI impI)
  assume "true0 test = Some v \<and> rate test = Some r \<and> rate_post test = Some po"
  then show "project cfg ag ''improvement'' H rate rate_post true0 test g =
        (case sample_improvement_fraction test ag (improvement cfg) g of
           Inl e \<Rightarrow> Inl e
         | Inr (imp, g1) \<Rightarrow>
             let start = (case ag of None \<Rightarrow> 0 | Some a \<Rightarrow> a) + 1;
                 left = H - 1;
                 years1 = (case accelerate_from_age cfg test of
                             None \<Rightarrow> left
                           | Some A \<Rightarrow> if start < A then min left (A - start) else 0);
                 years2 = left - years1;
                 hib = test \<in> set (higher_is_better cfg);
                 ua = test \<in> absolute_decline cfg
             in case apply_segment ua hib (improve cfg test v imp) r years1 of
                  Inl e \<Rightarrow> Inl e
                | Inr v1 \<Rightarrow>
                    (case apply_segment ua hib v1 (case po of Some p \<Rightarrow> p | None \<Rightarrow> r) years2 of
                       Inl e \<Rightarrow> Inl e
                     | Inr v2 \<Rightarrow>
                         apply_measurement_noise test (practice cfg H test v2)
                           (measurement_cv cfg) (set (measurement_lognormal cfg))
                           (allow_negative cfg) g1))"
    by (auto simp: project_def scenario_value_def apply_decline_chain split_years_def
          age_or_zero_def Let_def split: sum.splits option.splits prod.splits)
next
  assume a: "simulate_draw cl cfg ctests corr_L ''improvement'' (sums5, sums10, g0)
        = Inr (sums5', sums10', g') \<and>
    count_list (tests_order cfg) test = 1"
  then have t: "test \<in> set (tests_order cfg)"
    by (metis count_list_0_iff zero_neq_one)
  from a simulate_draw_steps [of cl cfg ctests corr_L "''improvement''" sums5 sums10 g0
      "(sums5', sums10', g')"]
  obtain z_corr g1 zm rate rp g2 true0 g3 g4 where
    st: "sample_rates cfg zm (tests_order cfg) Map.empty Map.empty g1 = Inr (rate, rp, g2)"
        "infer_all cfg (data cl) (tests_order cfg) Map.empty g2 = Inr (true0, g3)"
        "project_all cfg (age cl) ''improvement'' 5 rate rp true0 (tests_order cfg) sums5 g3
           = Inr (sums5', g4)"
        "project_all cfg (age cl) ''improvement'' 10 rate rp true0 (tests_order cfg) sums10 g4
           = Inr (sums10', g')"
    by auto
  from sample_rates_at [OF st(1) t] obtain r po where
    r: "rate test = Some r" "rp test = Some po"
    by blast
  from infer_all_at [OF st(2) t] obtain v where v: "true0 test = Some v"
    by blast
  from a have c: "count_list (tests_order cfg) test = 1" by simp
  from project_all_once [OF st(3) c] obtain o5 x5 g5 g6 where
    p5: "project cfg (age cl) ''improvement'' 5 rate rp true0 test g5 = Inr (o5, g6)"
        "sums5 test = Some x5" "sums5' test = Some (x5 + o5)"
    by blast
  from project_all_once [OF st(4) c] obtain o10 x10 g7 g8 where
    p10: "project cfg (age cl) ''improvement'' 10 rate rp true0 test g7 = Inr (o10, g8)"
        "sums10 test = Some x10" "sums10' test = Some (x10 + o10)"
    by blast
  from st(1,2) r v p5 p10
  show "\<exists>z_map rate rate_post true0 ga gb gc v r po o5 o10 x5 x10 g5 g6 g7 g8.
         sample_rates cfg z_map (tests_order cfg) Map.empty Map.empty ga
           = Inr (rate, rate_post, gb) \<and>
         infer_all cfg (data cl) (tests_order cfg) Map.empty gb = Inr (true0, gc) \<and>
         true0 test = Some v \<and> rate test = Some r \<and> rate_post test = Some po \<and>
         project cfg (age cl) ''improvement'' 5 rate rate_post true0 test g5 = Inr (o5, g6) \<and>
         project cfg (age cl) ''improvement'' 10 rate rate_post true0 test g7 = Inr (o10, g8) \<and>
         sums5 test = Some x5 \<and> sums5' test = Some (x5 + o5) \<and>
         sums10 test = Some x10 \<and> sums10' test = Some (x10 + o10)"
    by blast
qed

theorem improvement_ages_remaining_years_witness:
  "project accel_cfg (Some 45) ''improvement'' 5 [''VO2 max'' \<mapsto> 1 / 20]
       [''VO2 max'' \<mapsto> Some (1 / 10)] [''VO2 max'' \<mapsto> 40] ''VO2 max'' (sconst 0)
     = Inr (4007 / 100, sconst 0) \<and>
   project accel_cfg (Some 45) ''improvement'' 10 [''VO2 max'' \<mapsto> 1 / 20]
       [''VO2 max'' \<mapsto> Some (1 / 10)] [''VO2 max'' \<mapsto> 40] ''VO2 max'' (sconst 0)
     = Inr (2001 / 50, sconst 0) \<and>
   project accel_cfg None ''improvement'' 5 [''VO2 max'' \<mapsto> 1 / 20]
       [''VO2 max'' \<mapsto> Some (1 / 10)] [''VO2 max'' \<mapsto> 40] ''VO2 max'' (sconst 0)
     = Inr (1002 / 25, sconst 0) \<and>
   simulate_draw vo2_client accel_cfg [] [] ''improvement''
       (zero_sums [''VO2 max''], zero_sums [''VO2 max''], sconst 0)
     = Inr ([''VO2 max'' \<mapsto> 4007 / 100], [''VO2 max'' \<mapsto> 2001 / 50], sconst 0) \<and>
   count_list (tests_order accel_cfg) ''VO2 max'' = 1 \<and>
   (\<exists>rate rate_post true0 v r po o5 o10 g5 g6 g7 g8.
      true0 ''VO2 max'' = Some v \<and> rate ''VO2 max'' = Some r \<and>
      rate_post ''VO2 max'' = Some po \<and>
      project accel_cfg (Some 45) ''improvement'' 5 rate rate_post true0 ''VO2 max'' g5
        = Inr (o5, g6) \<and>
      project accel_cfg (Some 45) ''improvement'' 10 rate rate_post true0 ''VO2 max'' g7
        = Inr (o10, g8) \<and>
      o5 = 4007 / 100 \<and> o10 = 2001 / 50)"
proof -
  let ?r = "[''VO2 max'' \<mapsto> 1 / 20 :: real]"
  let ?p = "[''VO2 max'' \<mapsto> Some (1 / 10 :: real)]"
  let ?t = "[''VO2 max'' \<mapsto> 40 :: real]"
  note ev = accel_cfg_def vo2_cfg_def vo2_improvement_def sample_improvement_fraction_def
    uniform_def improve_def absolute_decline_def apply_segment_def practice_def
    apply_measurement_noise_def gauss_def allow_negative_def Let_def
  have a: "project accel_cfg (Some 45) ''improvement'' 5 ?r ?p ?t ''VO2 max'' (sconst 0)
      = Inr (4007 / 100, sconst 0)"
    using improvement_ages_remaining_years [of ?t "''VO2 max''" 40 ?r "1 / 20" ?p "Some (1 / 10)"
        accel_cfg "Some 45" 5 "sconst 0"]
    by (simp add: ev)
  have b: "project accel_cfg (Some 45) ''improvement'' 10 ?r ?p ?t ''VO2 max'' (sconst 0)
      = Inr (2001 / 50, sconst 0)"
    using improvement_ages_remaining_years [of ?t "''VO2 max''" 40 ?r "1 / 20" ?p "Some (1 / 10)"
        accel_cfg "Some 45" 10 "sconst 0"]
    by (simp add: ev)
  have c: "project accel_cfg None ''improvement'' 5 ?r ?p ?t ''VO2 max'' (sconst 0)
      = Inr (1002 / 25, sconst 0)"
    using improvement_ages_remaining_years [of ?t "''VO2 max''" 40 ?r "1 / 20" ?p "Some (1 / 10)"
        accel_cfg None 5 "sconst 0"]
    by (simp add: ev)
  have d: "simulate_draw vo2_client accel_cfg [] [] ''improvement''
       (zero_sums [''VO2 max''], zero_sums [''VO2 max''], sconst 0)
     = Inr ([''VO2 max'' \<mapsto> 4007 / 100], [''VO2 max'' \<mapsto> 2001 / 50], sconst 0)"
    using accel_improvement_draw [of "sconst 0"] by simp
  have e: "count_list (tests_order accel_cfg) ''VO2 max'' = 1"
    by (simp add: accel_cfg_def vo2_cfg_def)
  have f: "\<exists>rate rate_post true0 v r po o5 o10 g5 g6 g7 g8.
      true0 ''VO2 max'' = Some v \<and> rate ''VO2 max'' = Some r \<and>
      rate_post ''VO2 max'' = Some po \<and>
      project accel_cfg (Some 45) ''improvement'' 5 rate rate_post true0 ''VO2 max'' g5
        = Inr (o5, g6) \<and>
      project accel_cfg (Some 45) ''improvement'' 10 rate rate_post true0 ''VO2 max'' g7
        = Inr (o10, g8) \<and>
      o5 = 4007 / 100 \<and> o10 = 2001 / 50"
  proof -
    from improvement_ages_remaining_years [where test = "''VO2 max''" and cl = vo2_client
        and cfg = accel_cfg and ctests = "[]" and corr_L = "[]"
        and ?sums5.0 = "zero_sums [''VO2 max'']" and ?sums10.0 = "zero_sums [''VO2 max'']"
        and ?g0.0 = "sconst 0" and sums5' = "[''VO2 max'' \<mapsto> 4007 / 100]"
        and sums10' = "[''VO2 max'' \<mapsto> 2001 / 50]" and g' = "sconst 0",
        THEN conjunct2, rule_format, OF conjI [OF d e]]
    obtain rate rate_post true0 v r po o5 o10 x5 x10 g5 g6 g7 g8 where
      h: "true0 ''VO2 max'' = Some v" "rate ''VO2 max'' = Some r"
         "rate_post ''VO2 max'' = Some po"
         "project accel_cfg (age vo2_client) ''improvement'' 5 rate rate_post true0 ''VO2 max'' g5
            = Inr (o5, g6)"
         "project accel_cfg (age vo2_client) ''improvement'' 10 rate rate_post true0 ''VO2 max'' g7
            = Inr (o10, g8)"
         "zero_sums [''VO2 max''] ''VO2 max'' = Some x5"
         "[''VO2 max'' \<mapsto> 4007 / 100] ''VO2 max'' = Some (x5 + o5)"
         "zero_sums [''VO2 max''] ''VO2 max'' = Some x10"
         "[''VO2 max'' \<mapsto> 2001 / 50] ''VO2 max'' = Some (x10 + o10)"
      by blast
    from h(6-9) have o: "o5 = 4007 / 100" "o10 = 2001 / 50"
      by (simp_all add: zero_sums_def)
    from h(4,5) have
      "project accel_cfg (Some 45) ''improvement'' 5 rate rate_post true0 ''VO2 max'' g5
         = Inr (o5, g6)"
      "project accel_cfg (Some 45) ''improvement'' 10 rate rate_post true0 ''VO2 max'' g7
         = Inr (o10, g8)"
      by (simp_all add: vo2_client_def)
    with h(1-3) o show ?thesis by blast
  qed
  from a b c d e f show ?thesis by (intro conjI)
qed

end
